theory Spec2Isabelle
  imports Main "HOL-Library.Sublist"
begin

section \<open>The renderapi client: request engine, pagination and service resolution\<close>

text \<open>
  A shallow embedding of \<^verbatim>\<open>src/index.ts\<close>, the file the package is built from, and
  of the two places where the earlier revision of it that the repository holds
  differs. JavaScript strings are modelled as
  \<^typ>\<open>string\<close>, one \<^typ>\<open>char\<close> per code unit (code units up to U+00FF). Objects used
  as parameter bags are association lists of their own properties, in
  \<^verbatim>\<open>Object.entries\<close> order. The HTTP transport, the JSON parser and the
  regular-expression engine belong to the runtime: the transport is a state machine
  given as a parameter, a parsed JSON body is given with its response, and the matcher
  is a parameter of the resolver.
\<close>

subsection \<open>Strings\<close>

definition RENDER_API :: string where
  "RENDER_API = ''https://api.render.com/v1''"

text \<open>\<^verbatim>\<open>s.startsWith(p)\<close>\<close>

definition startsWith :: "string \<Rightarrow> string \<Rightarrow> bool" where
  "startsWith s p = (take (length p) s = p)"

text \<open>\<^verbatim>\<open>s.slice(-6)\<close>: the last six code units, the whole string when it is shorter.\<close>

definition slice_last6 :: "string \<Rightarrow> string" where
  "slice_last6 s = drop (length s - 6) s"

text \<open>\<^verbatim>\<open>xs.join(sep)\<close> on an array of strings.\<close>

fun join :: "string \<Rightarrow> string list \<Rightarrow> string" where
  "join sep [] = []"
| "join sep [x] = x"
| "join sep (x # y # ys) = x @ sep @ join sep (y # ys)"

text \<open>\<^verbatim>\<open>s.includes(p)\<close>: \<open>p\<close> occurs in \<open>s\<close> as a contiguous substring.\<close>

fun str_includes :: "string \<Rightarrow> string \<Rightarrow> bool" where
  "str_includes [] p = (p = [])"
| "str_includes (c # s) p = (take (length p) (c # s) = p \<or> str_includes s p)"

subsection \<open>URLSearchParams serialisation\<close>

text \<open>
  The runtime's \<^verbatim>\<open>URLSearchParams.toString()\<close>, after the URL standard's
  \<^verbatim>\<open>application/x-www-form-urlencoded\<close> serialiser: ASCII letters, digits and
  \<^verbatim>\<open>* - . _\<close> stay, a space becomes \<^verbatim>\<open>+\<close>, every other code point becomes the
  percent-encoded bytes of its UTF-8 form (two bytes for U+0080 to U+00FF).
\<close>

definition unreserved :: "char \<Rightarrow> bool" where
  "unreserved c = (c \<in> set ''ABCDEFGHIJKLMNOPQRSTUVWXYZabcdefghijklmnopqrstuvwxyz0123456789*-._'')"

definition hexDigit :: "nat \<Rightarrow> char" where
  "hexDigit n = ''0123456789ABCDEF'' ! (n mod 16)"

definition percentByte :: "nat \<Rightarrow> string" where
  "percentByte b = [CHR ''%'', hexDigit (b div 16), hexDigit b]"

definition utf8 :: "char \<Rightarrow> nat list" where
  "utf8 c = (let n = (of_char c :: nat) in
     if n < 128 then [n] else [192 + n div 64, 128 + n mod 64])"

definition urlencodeChar :: "char \<Rightarrow> string" where
  "urlencodeChar c =
     (if unreserved c then [c]
      else if c = CHR '' '' then ''+''
      else concat (map percentByte (utf8 c)))"

definition urlencode :: "string \<Rightarrow> string" where
  "urlencode s = concat (map urlencodeChar s)"

definition serializePair :: "string \<times> string \<Rightarrow> string" where
  "serializePair p = urlencode (fst p) @ ''='' @ urlencode (snd p)"

definition searchParams_toString :: "(string \<times> string) list \<Rightarrow> string" where
  "searchParams_toString ps = join ''&'' (map serializePair ps)"

text \<open>
  Reading a query string back: its \<^verbatim>\<open>&\<close>-separated occurrences, and those of them
  that carry a given parameter name.
\<close>

fun splitOn :: "char \<Rightarrow> string \<Rightarrow> string list" where
  "splitOn d [] = [[]]"
| "splitOn d (c # s) =
     (if c = d then [] # splitOn d s
      else (case splitOn d s of [] \<Rightarrow> [[c]] | w # ws \<Rightarrow> (c # w) # ws))"

definition occurrences :: "string \<Rightarrow> string list" where
  "occurrences qs = (if qs = [] then [] else splitOn CHR ''&'' qs)"

definition occurrencesOf :: "string \<Rightarrow> string \<Rightarrow> string list" where
  "occurrencesOf k qs = filter (\<lambda>seg. startsWith seg (urlencode k @ ''='')) (occurrences qs)"

subsection \<open>Parameter bags\<close>

text \<open>
  A value of a parameter bag of \<^verbatim>\<open>renderGet\<close>:
  \<^verbatim>\<open>string | string[] | undefined\<close>.
\<close>

datatype pvalue = Undefined | Str string | Arr "string list"

text \<open>\<^verbatim>\<open>obj[key] = value\<close>: an existing key keeps its place, a new key goes last.\<close>

fun setProp :: "(string \<times> 'v) list \<Rightarrow> string \<Rightarrow> 'v \<Rightarrow> (string \<times> 'v) list" where
  "setProp [] k v = [(k, v)]"
| "setProp (p # obj) k v = (if fst p = k then (k, v) # obj else p # setProp obj k v)"

text \<open>\<^verbatim>\<open>obj[key]\<close>: \<^verbatim>\<open>undefined\<close> for a key the object does not have.\<close>

definition getProp :: "(string \<times> pvalue) list \<Rightarrow> string \<Rightarrow> pvalue" where
  "getProp obj k = (case map_of obj k of None \<Rightarrow> Undefined | Some v \<Rightarrow> v)"

text \<open>JavaScript truthiness: \<^verbatim>\<open>undefined\<close> and the empty string are falsy, every array is truthy.\<close>

fun truthy :: "pvalue \<Rightarrow> bool" where
  "truthy Undefined = False"
| "truthy (Str s) = (s \<noteq> [])"
| "truthy (Arr xs) = True"

text \<open>\<^verbatim>\<open>if (!params.limit) { params.limit = "100"; }\<close> in \<^verbatim>\<open>renderGet\<close>: an assignment to the caller's object.\<close>

definition defaultLimit :: "(string \<times> pvalue) list \<Rightarrow> (string \<times> pvalue) list" where
  "defaultLimit params =
     (if \<not> truthy (getProp params ''limit'') then setProp params ''limit'' (Str ''100'') else params)"

text \<open>\<^verbatim>\<open>value !== undefined && !(Array.isArray(value) && value.length === 0)\<close>\<close>

definition keepParam :: "pvalue \<Rightarrow> bool" where
  "keepParam v = (v \<noteq> Undefined \<and> \<not> (case v of Arr xs \<Rightarrow> length xs = 0 | _ \<Rightarrow> False))"

text \<open>
  \<^verbatim>\<open>obj[key] = value\<close> in the callback of \<^verbatim>\<open>reduce\<close>, where \<^verbatim>\<open>obj\<close> starts as the object
  literal \<^verbatim>\<open>{}\<close>. Such an object inherits the accessor \<^verbatim>\<open>__proto__\<close> from
  \<^verbatim>\<open>Object.prototype\<close>: an assignment to that key runs the setter, which ignores a
  string and takes an array as the new prototype, and creates no own property either
  way. Every other key is set as an own property.
\<close>

definition assignProp :: "(string \<times> 'v) list \<Rightarrow> string \<Rightarrow> 'v \<Rightarrow> (string \<times> 'v) list" where
  "assignProp obj key v = (if key = ''__proto__'' then obj else setProp obj key v)"

text \<open>\<^verbatim>\<open>Object.entries(params).filter(...).reduce(..., {})\<close>: a new object.\<close>

definition filterParams :: "(string \<times> pvalue) list \<Rightarrow> (string \<times> pvalue) list" where
  "filterParams params =
     fold (\<lambda>(key, v) obj. assignProp obj key v) (filter (\<lambda>(key, v). keepParam v) params) []"

text \<open>
  The \<^verbatim>\<open>forEach\<close> that fills \<^verbatim>\<open>searchParams\<close>: an array is joined with commas into one
  appended parameter, a string is appended as it is.
\<close>

definition paramValue :: "pvalue \<Rightarrow> string" where
  "paramValue v = (case v of Arr xs \<Rightarrow> join '','' xs | Str x \<Rightarrow> x | Undefined \<Rightarrow> ''undefined'')"

definition appendParams :: "(string \<times> pvalue) list \<Rightarrow> (string \<times> string) list" where
  "appendParams filteredParams =
     fold (\<lambda>(key, v) searchParams. searchParams @ [(key, paramValue v)]) filteredParams []"

definition queryString :: "(string \<times> pvalue) list \<Rightarrow> string" where
  "queryString params = searchParams_toString (appendParams (filterParams params))"

text \<open>The same steps in \<^verbatim>\<open>renderGetPaged\<close>, whose bag holds \<^verbatim>\<open>string | undefined\<close>.\<close>

definition defaultLimitPaged :: "(string \<times> string option) list \<Rightarrow> (string \<times> string option) list" where
  "defaultLimitPaged params =
     (if (case map_of params ''limit'' of None \<Rightarrow> True | Some None \<Rightarrow> True | Some (Some x) \<Rightarrow> x = [])
      then setProp params ''limit'' (Some ''100'') else params)"

definition definedEntries :: "(string \<times> string option) list \<Rightarrow> (string \<times> string) list" where
  "definedEntries params = concat (map (\<lambda>(key, v). case v of None \<Rightarrow> [] | Some x \<Rightarrow> [(key, x)]) params)"

definition filterParamsPaged :: "(string \<times> string option) list \<Rightarrow> (string \<times> string) list" where
  "filterParamsPaged params = fold (\<lambda>(key, v) obj. assignProp obj key v) (definedEntries params) []"

subsection \<open>Requests, responses and errors\<close>

record request =
  meth :: string
  url :: string
  headers :: "(string \<times> string) list"
  body :: "string option"

text \<open>
  A response: \<^verbatim>\<open>res.ok\<close>, \<^verbatim>\<open>res.statusText\<close>, the body as \<^verbatim>\<open>res.text()\<close> reads it and
  as \<^verbatim>\<open>res.json()\<close> parses it (\<open>None\<close> when the body is not JSON of the shape the
  caller's type parameter asserts).
\<close>

record 'j response =
  ok :: bool
  statusText :: string
  bodyText :: string
  json :: "'j option"

text \<open>
  \<^verbatim>\<open>Error msg\<close> is \<^verbatim>\<open>new Error(msg)\<close>; \<open>TypeError\<close> is a rejected \<^verbatim>\<open>fetch\<close>;
  \<open>SyntaxError\<close> is what \<^verbatim>\<open>res.json()\<close> and \<^verbatim>\<open>new RegExp\<close> throw.
\<close>

datatype error = Error string | TypeError | SyntaxError

text \<open>The transport: a server state, a request, the response (or none) and the next state.\<close>

type_synonym ('s, 'j) fetch = "'s \<Rightarrow> request \<Rightarrow> 'j response option \<times> 's"

text \<open>
  The headers of a request: \<^verbatim>\<open>Content-Type\<close> always, \<^verbatim>\<open>Authorization\<close> for a token that is
  not empty. \<^verbatim>\<open>headers.append\<close> is the first thing each request function does, and it
  throws a \<^verbatim>\<open>TypeError\<close> when the value has a NUL, a line feed or a carriage return
  inside: the call then ends there, before \<^verbatim>\<open>params.limit\<close> is looked at and before any
  request. A token without these three characters is always taken, and
  \<open>mkHeaders\<close> is what \<^verbatim>\<open>append\<close> builds then. The request functions below describe the
  calls that get past their headers.
\<close>

definition validToken :: "string \<Rightarrow> bool" where
  "validToken token = list_all (\<lambda>c. c \<noteq> CHR 0x00 \<and> c \<noteq> CHR 0x0A \<and> c \<noteq> CHR 0x0D) token"

definition mkHeaders :: "string \<Rightarrow> (string \<times> string) list" where
  "mkHeaders token =
     (''Content-Type'', ''application/json'') #
     (if token \<noteq> [] then [(''Authorization'', ''Bearer '' @ token)] else [])"

definition newline :: string where
  "newline = [CHR 0x0A]"

text \<open>
  The message of the error thrown on a response that is not ok; \<open>intro\<close> is
  \<^verbatim>\<open>Unable to fetch data from render \<close> or \<^verbatim>\<open>Unable to fetch post data from render \<close>.
\<close>

definition errorMessage :: "string \<Rightarrow> string \<Rightarrow> string \<Rightarrow> string \<Rightarrow> string \<Rightarrow> string" where
  "errorMessage intro status u token errorBody =
     intro @ status @ newline @ ''url: '' @ u @ newline @
     ''api key: *****'' @ slice_last6 token @ newline @ errorBody"

subsection \<open>renderGet and renderPost\<close>

definition getRequest :: "string \<Rightarrow> string \<Rightarrow> string \<Rightarrow> request" where
  "getRequest token method qs =
     \<lparr>meth = ''GET'', url = RENDER_API @ ''/'' @ method @ ''?'' @ qs,
      headers = mkHeaders token, body = None\<rparr>"

text \<open>
  \<^verbatim>\<open>renderGet\<close> returns the caller's bag as the call leaves it, the server state and the
  outcome.
\<close>

definition renderGet ::
  "('s, 'j) fetch \<Rightarrow> 's \<Rightarrow> string \<Rightarrow> string \<Rightarrow> (string \<times> pvalue) list
     \<Rightarrow> (string \<times> pvalue) list \<times> 's \<times> (error + 'j)" where
  "renderGet fetch s token method params =
     (let params' = defaultLimit params;
          req = getRequest token method (queryString params');
          (res, s') = fetch s req
      in (params', s',
          (case res of
             None \<Rightarrow> Inl TypeError
           | Some r \<Rightarrow>
               if \<not> ok r
               then Inl (Error (errorMessage ''Unable to fetch data from render ''
                                  (statusText r) (url req) token (bodyText r)))
               else (case json r of None \<Rightarrow> Inl SyntaxError | Some j \<Rightarrow> Inr j))))"

text \<open>\<^verbatim>\<open>JSON.stringify\<close> belongs to the runtime and is a parameter of \<^verbatim>\<open>renderPost\<close>.\<close>

definition postRequest :: "string \<Rightarrow> string \<Rightarrow> string \<Rightarrow> request" where
  "postRequest token method payload =
     \<lparr>meth = ''POST'', url = RENDER_API @ ''/'' @ method,
      headers = mkHeaders token, body = Some payload\<rparr>"

definition renderPost ::
  "('b \<Rightarrow> string) \<Rightarrow> ('s, 'j) fetch \<Rightarrow> 's \<Rightarrow> string \<Rightarrow> string \<Rightarrow> 'b \<Rightarrow> 's \<times> (error + 'j)" where
  "renderPost stringify fetch s token method b =
     (let req = postRequest token method (stringify b);
          (res, s') = fetch s req
      in (s',
          (case res of
             None \<Rightarrow> Inl TypeError
           | Some r \<Rightarrow>
               if \<not> ok r
               then Inl (Error (errorMessage ''Unable to fetch post data from render ''
                                  (statusText r) (url req) token (bodyText r)))
               else (case json r of None \<Rightarrow> Inl SyntaxError | Some j \<Rightarrow> Inr j))))"

subsection \<open>renderGetPaged\<close>

text \<open>An element of a page: any object with a \<^verbatim>\<open>cursor\<close> field.\<close>

record cursored =
  cursor :: string

text \<open>
  The \<^verbatim>\<open>while (true)\<close> loop. Its state is \<^verbatim>\<open>filteredParams\<close>, \<^verbatim>\<open>objects\<close> and the server;
  \<open>log\<close> collects the requests issued with the responses received. The loop has no
  bound, so it is a partial function: \<open>None\<close> is a loop that never ends.
\<close>

partial_function (option) renderGetPaged_loop ::
  "('s, 'e cursored_scheme list) fetch \<Rightarrow> string \<Rightarrow> string \<Rightarrow> (string \<times> string) list
     \<Rightarrow> 'e cursored_scheme list \<Rightarrow> 's \<Rightarrow> (request \<times> 'e cursored_scheme list response option) list
     \<Rightarrow> ((error + 'e cursored_scheme list) \<times> 's \<times>
         (request \<times> 'e cursored_scheme list response option) list) option" where
  "renderGetPaged_loop fetch token method filteredParams objects s log =
     (let req = getRequest token method (searchParams_toString filteredParams) in
      case fetch s req of (res, s') \<Rightarrow>
        (case res of
           None \<Rightarrow> Some (Inl TypeError, s', log @ [(req, res)])
         | Some r \<Rightarrow>
             if \<not> ok r
             then Some (Inl (Error (errorMessage ''Unable to fetch data from render ''
                                     (statusText r) (url req) token (bodyText r))),
                        s', log @ [(req, res)])
             else (case json r of
                     None \<Rightarrow> Some (Inl SyntaxError, s', log @ [(req, res)])
                   | Some resultObjects \<Rightarrow>
                       if length resultObjects = 0
                       then Some (Inr objects, s', log @ [(req, res)])
                       else renderGetPaged_loop fetch token method
                              (setProp filteredParams ''cursor'' (cursor (last resultObjects)))
                              (objects @ resultObjects) s' (log @ [(req, res)]))))"

definition renderGetPaged ::
  "('s, 'e cursored_scheme list) fetch \<Rightarrow> 's \<Rightarrow> string \<Rightarrow> string \<Rightarrow> (string \<times> string option) list
     \<Rightarrow> (string \<times> string option) list \<times>
        ((error + 'e cursored_scheme list) \<times> 's \<times>
         (request \<times> 'e cursored_scheme list response option) list) option" where
  "renderGetPaged fetch s token method params =
     (let params' = defaultLimitPaged params
      in (params', renderGetPaged_loop fetch token method (filterParamsPaged params') [] s []))"

subsection \<open>Identifier classes\<close>

definition isServiceID :: "string \<Rightarrow> bool" where
  "isServiceID s = startsWith s ''srv-''"

definition isEnvironmentID :: "string \<Rightarrow> bool" where
  "isEnvironmentID s = startsWith s ''evm-''"

definition isCronID :: "string \<Rightarrow> bool" where
  "isCronID s = startsWith s ''crn-''"

definition isJobID :: "string \<Rightarrow> bool" where
  "isJobID s = startsWith s ''job-''"

definition isRedisID :: "string \<Rightarrow> bool" where
  "isRedisID s = startsWith s ''red-''"

definition isPostgresID :: "string \<Rightarrow> bool" where
  "isPostgresID s = startsWith s ''dpg-''"

definition isEnvironmentGroupID :: "string \<Rightarrow> bool" where
  "isEnvironmentGroupID s = startsWith s ''evg-''"

definition isRegistryCredentialID :: "string \<Rightarrow> bool" where
  "isRegistryCredentialID s = startsWith s ''rgc-''"

subsection \<open>The earlier revision\<close>

text \<open>
  \<^verbatim>\<open>src/unnamed/part_001\<close> holds an earlier revision of \<^verbatim>\<open>index.ts\<close>. The request
  engine and the resolver are the same there as in \<^verbatim>\<open>src/index.ts\<close> but for two places. Two
  classifier predicates test the prefix of the job class, beside the type
  declarations \<^verbatim>\<open>RedisID = `red-${string}`\<close> and \<^verbatim>\<open>PostgresID = `dpg-${string}`\<close>:
\<close>

definition isRedisID_part001 :: "string \<Rightarrow> bool" where
  "isRedisID_part001 s = startsWith s ''job-''"

definition isPostgresID_part001 :: "string \<Rightarrow> bool" where
  "isPostgresID_part001 s = startsWith s ''job-''"

text \<open>
  And the message of the error on a response that is not ok,
  \<^verbatim>\<open>Unable to fetch data from render ${res.statusText} ${process.env.RENDER_API_KEY}:\n${errorBody}\<close>
  in all three request functions, names no URL and holds the API key of the
  environment as it is (\<^verbatim>\<open>undefined\<close> when the variable is not set).
\<close>

definition errorMessage_part001 :: "string \<Rightarrow> string option \<Rightarrow> string \<Rightarrow> string" where
  "errorMessage_part001 status envKey errorBody =
     ''Unable to fetch data from render '' @ status @ '' '' @
     (case envKey of None \<Rightarrow> ''undefined'' | Some k \<Rightarrow> k) @ '':'' @ newline @ errorBody"

subsection \<open>Services and their resolution\<close>

text \<open>
  A \<^verbatim>\<open>Service\<close> with the two fields the resolver reads, \<^verbatim>\<open>id\<close> and \<^verbatim>\<open>name\<close>; the other
  fields of the interface live in the extension of the record. A \<^verbatim>\<open>ServiceCursor\<close> is a
  page element that carries a service.
\<close>

record service =
  serviceId :: string
  name :: string

record 'z serviceCursor = cursored +
  service :: "'z service_scheme"

definition getService ::
  "('s, 'z service_scheme) fetch \<Rightarrow> 's \<Rightarrow> string \<Rightarrow> string \<Rightarrow> 's \<times> (error + 'z service_scheme)" where
  "getService fetchService s token serviceID =
     snd (renderGet fetchService s token (''/services/'' @ serviceID) [])"

text \<open>
  \<^verbatim>\<open>services.filter((s) => s.name.match(nameFilter))\<close>. \<^verbatim>\<open>String.prototype.match\<close> compiles
  its argument to a regular expression at every call; \<open>rx pattern subject\<close> stands for
  it, \<open>None\<close> when the pattern does not compile.
\<close>

fun filterByName ::
  "(string \<Rightarrow> string \<Rightarrow> bool option) \<Rightarrow> string \<Rightarrow> 'z service_scheme list
     \<Rightarrow> error + 'z service_scheme list" where
  "filterByName rx nameFilter [] = Inr []"
| "filterByName rx nameFilter (sv # svs) =
     (case rx nameFilter (name sv) of
        None \<Rightarrow> Inl SyntaxError
      | Some m \<Rightarrow>
          (case filterByName rx nameFilter svs of
             Inl e \<Rightarrow> Inl e
           | Inr kept \<Rightarrow> Inr (if m then sv # kept else kept)))"

definition getServices ::
  "(string \<Rightarrow> string \<Rightarrow> bool option) \<Rightarrow> ('s, ('z, 'y) serviceCursor_scheme list) fetch
     \<Rightarrow> 's \<Rightarrow> string \<Rightarrow> string \<Rightarrow> ('s \<times> (error + 'z service_scheme list)) option" where
  "getServices rx fetchServices s token nameFilter =
     (case snd (renderGetPaged fetchServices s token ''services'' []) of
        None \<Rightarrow> None
      | Some (outcome, s', log) \<Rightarrow>
          Some (s',
            (case outcome of
               Inl e \<Rightarrow> Inl e
             | Inr serviceObjs \<Rightarrow>
                 (let services = map service serviceObjs
                  in if nameFilter \<noteq> [] then filterByName rx nameFilter services
                     else Inr services))))"

definition describeService :: "'z service_scheme \<Rightarrow> string" where
  "describeService sv = name sv @ '' ('' @ serviceId sv @ '')''"

definition determineService ::
  "(string \<Rightarrow> string \<Rightarrow> bool option) \<Rightarrow> ('s, 'z service_scheme) fetch
     \<Rightarrow> ('s, ('z, 'y) serviceCursor_scheme list) fetch
     \<Rightarrow> 's \<Rightarrow> string \<Rightarrow> string \<Rightarrow> ('s \<times> (error + 'z service_scheme)) option" where
  "determineService rx fetchService fetchServices s apiKey serviceIDOrName =
     (if isServiceID serviceIDOrName
      then Some (getService fetchService s apiKey serviceIDOrName)
      else
        (case getServices rx fetchServices s apiKey serviceIDOrName of
           None \<Rightarrow> None
         | Some (s', Inl e) \<Rightarrow> Some (s', Inl e)
         | Some (s', Inr services) \<Rightarrow>
             Some (s',
               if length services = 0
               then Inl (Error (''No services found with ID or name '' @ serviceIDOrName))
               else if length services \<noteq> 1
               then (case find (\<lambda>sv. name sv = serviceIDOrName) services of
                       Some exactMatch \<Rightarrow> Inr exactMatch
                     | None \<Rightarrow>
                         Inl (Error (''Too many services found with '' @ serviceIDOrName @ '':'' @
                                newline @ join (''  '' @ newline) (map describeService services))))
               else Inr (services ! 0))))"

subsection \<open>A scripted server\<close>

text \<open>
  A mock transport for the examples: it answers the successive requests with the
  responses of a list, whatever the requests are, and rejects once the list is used up.
\<close>

fun scripted :: "('j response list, 'j) fetch" where
  "scripted [] req = (None, [])"
| "scripted (r # rs) req = (Some r, rs)"

text \<open>A transport that keeps the requests it is given, in order, and rejects each.\<close>

definition recorder :: "(request list, 'j) fetch" where
  "recorder s req = (None, s @ [req])"

definition okPage :: "'j \<Rightarrow> 'j response" where
  "okPage p = \<lparr>ok = True, statusText = ''OK'', bodyText = [], json = Some p\<rparr>"

definition unauthorized :: "'j response" where
  "unauthorized = \<lparr>ok = False, statusText = ''Unauthorized'', bodyText = ''invalid api key'', json = None\<rparr>"

text \<open>A server for the examples, with the two services \<^verbatim>\<open>foo-a\<close> and \<^verbatim>\<open>foo-b\<close>.\<close>

definition twoServices :: "unit serviceCursor list response list" where
  "twoServices =
     [okPage [\<lparr>cursor = ''c1'', service = \<lparr>serviceId = ''srv-1'', name = ''foo-a''\<rparr>\<rparr>,
              \<lparr>cursor = ''c2'', service = \<lparr>serviceId = ''srv-2'', name = ''foo-b''\<rparr>\<rparr>],
      okPage []]"

definition noService :: "(unit serviceCursor list response list, service) fetch" where
  "noService s req = (None, s)"

text \<open>
  A matcher for the examples: a pattern without metacharacters matches the names that
  contain it.
\<close>

definition plainMatch :: "string \<Rightarrow> string \<Rightarrow> bool option" where
  "plainMatch pattern subject = Some (str_includes subject pattern)"

subsection \<open>Reading a log of exchanges\<close>

text \<open>
  The page an exchange delivered (empty when the response was not ok or did not parse),
  and the exchanges after which the loop goes on: an ok response with a page that is
  not empty.
\<close>

definition pageOf :: "request \<times> 'e list response option \<Rightarrow> 'e list" where
  "pageOf x =
     (case snd x of
        None \<Rightarrow> []
      | Some r \<Rightarrow> if ok r then (case json r of None \<Rightarrow> [] | Some p \<Rightarrow> p) else [])"

definition fullPage :: "request \<times> 'e list response option \<Rightarrow> bool" where
  "fullPage x = (pageOf x \<noteq> [])"

text \<open>
  The requests of a run: the first is built from the filtered parameters, each later
  one from the parameters of the one before with \<^verbatim>\<open>cursor\<close> set to the cursor of the
  last element of the page received in between.
\<close>

fun chain ::
  "string \<Rightarrow> string \<Rightarrow> (string \<times> string) list
     \<Rightarrow> (request \<times> 'e cursored_scheme list response option) list \<Rightarrow> bool" where
  "chain token method filteredParams [] = True"
| "chain token method filteredParams (x # xs) =
     (fst x = getRequest token method (searchParams_toString filteredParams) \<and>
      chain token method (setProp filteredParams ''cursor'' (cursor (last (pageOf x)))) xs)"

text \<open>
  A server that answers the requests of the loop, as the loop makes them from the given
  filtered parameters on, with the given pages, each not empty, and then with an empty
  page.
\<close>

fun answersWith ::
  "('s, 'e cursored_scheme list) fetch \<Rightarrow> string \<Rightarrow> string \<Rightarrow> (string \<times> string) list
     \<Rightarrow> 's \<Rightarrow> 'e cursored_scheme list list \<Rightarrow> bool" where
  "answersWith fetch token method filteredParams s [] =
     (case fetch s (getRequest token method (searchParams_toString filteredParams)) of
        (None, s') \<Rightarrow> False
      | (Some r, s') \<Rightarrow> ok r \<and> json r = Some [])"
| "answersWith fetch token method filteredParams s (p # ps) =
     (case fetch s (getRequest token method (searchParams_toString filteredParams)) of
        (None, s') \<Rightarrow> False
      | (Some r, s') \<Rightarrow>
          ok r \<and> json r = Some p \<and> p \<noteq> [] \<and>
          answersWith fetch token method
            (setProp filteredParams ''cursor'' (cursor (last p))) s' ps)"

text \<open>
  A server that answers the requests of the loop, as the loop makes them from the given
  filtered parameters on, with the given pages, each not empty, and then with the
  response \<open>r\<close>, which is not ok.
\<close>

fun failsAfter ::
  "('s, 'e cursored_scheme list) fetch \<Rightarrow> string \<Rightarrow> string \<Rightarrow> (string \<times> string) list
     \<Rightarrow> 's \<Rightarrow> 'e cursored_scheme list list \<Rightarrow> 'e cursored_scheme list response \<Rightarrow> bool" where
  "failsAfter fetch token method filteredParams s [] r =
     (case fetch s (getRequest token method (searchParams_toString filteredParams)) of
        (None, s') \<Rightarrow> False
      | (Some r', s') \<Rightarrow> r' = r \<and> \<not> ok r)"
| "failsAfter fetch token method filteredParams s (p # ps) r =
     (case fetch s (getRequest token method (searchParams_toString filteredParams)) of
        (None, s') \<Rightarrow> False
      | (Some r', s') \<Rightarrow>
          ok r' \<and> json r' = Some p \<and> p \<noteq> [] \<and>
          failsAfter fetch token method
            (setProp filteredParams ''cursor'' (cursor (last p))) s' ps r)"

text \<open>What the loop returns, read off the last exchange of its log.\<close>

definition finalOutcome ::
  "string \<Rightarrow> 'e cursored_scheme list \<Rightarrow> request \<times> 'e cursored_scheme list response option
     \<Rightarrow> (error + 'e cursored_scheme list) option" where
  "finalOutcome token objects x =
     (case snd x of
        None \<Rightarrow> Some (Inl TypeError)
      | Some r \<Rightarrow>
          if \<not> ok r
          then Some (Inl (Error (errorMessage ''Unable to fetch data from render ''
                                   (statusText r) (url (fst x)) token (bodyText r))))
          else (case json r of
                  None \<Rightarrow> Some (Inl SyntaxError)
                | Some p \<Rightarrow> if p = [] then Some (Inr objects) else None))"

definition traceOK ::
  "string \<Rightarrow> string \<Rightarrow> (string \<times> string) list \<Rightarrow> 'e cursored_scheme list
     \<Rightarrow> (request \<times> 'e cursored_scheme list response option) list
     \<Rightarrow> (error + 'e cursored_scheme list) \<times> 's \<times>
        (request \<times> 'e cursored_scheme list response option) list \<Rightarrow> bool" where
  "traceOK token method filteredParams objects log y =
     (\<exists>mid e. snd (snd y) = log @ mid @ [e] \<and> list_all fullPage mid \<and>
        chain token method filteredParams (mid @ [e]) \<and>
        finalOutcome token (objects @ concat (map pageOf mid)) e = Some (fst y))"

section \<open>Properties\<close>

subsection \<open>Substrings\<close>

lemma str_includes_iff: "str_includes s p \<longleftrightarrow> (\<exists>a b. s = a @ p @ b)"
proof (induction s)
  case Nil
  then show ?case by auto
next
  case (Cons c s)
  show ?case
  proof
    assume "str_includes (c # s) p"
    then consider "take (length p) (c # s) = p" | "str_includes s p" by auto
    then show "\<exists>a b. c # s = a @ p @ b"
    proof cases
      case 1
      then have "c # s = [] @ p @ drop (length p) (c # s)"
        by (metis append_Nil append_take_drop_id)
      then show ?thesis by blast
    next
      case 2
      then obtain a b where "s = a @ p @ b" using Cons.IH by blast
      then have "c # s = (c # a) @ p @ b" by simp
      then show ?thesis by blast
    qed
  next
    assume "\<exists>a b. c # s = a @ p @ b"
    then obtain a b where ab: "c # s = a @ p @ b" by blast
    show "str_includes (c # s) p"
    proof (cases a)
      case Nil
      with ab have "take (length p) (c # s) = p" by simp
      then show ?thesis by simp
    next
      case (Cons x a')
      with ab have "s = a' @ p @ b" by simp
      then show ?thesis using Cons.IH by auto
    qed
  qed
qed

subsection \<open>The serialiser is injective and keeps its separators apart\<close>

lemma hexDigit_mem: "hexDigit n \<in> set ''0123456789ABCDEF''"
  unfolding hexDigit_def by (rule nth_mem) simp

lemma hexDigit_not_special: "hexDigit n \<noteq> CHR ''&''" "hexDigit n \<noteq> CHR ''=''"
  using hexDigit_mem[of n] by auto

lemma hexDigit_inj: "hexDigit a = hexDigit b \<Longrightarrow> a mod 16 = b mod 16"
proof -
  assume "hexDigit a = hexDigit b"
  then have "''0123456789ABCDEF'' ! (a mod 16) = ''0123456789ABCDEF'' ! (b mod 16)"
    by (simp only: hexDigit_def)
  moreover have "distinct ''0123456789ABCDEF''" by simp
  moreover have "a mod 16 < length ''0123456789ABCDEF''" "b mod 16 < length ''0123456789ABCDEF''"
    by simp_all
  ultimately show ?thesis by (simp only: nth_eq_iff_index_eq)
qed

lemma byte_eq:
  assumes "(a div 16) mod 16 = (b div 16) mod 16" "a mod 16 = b mod 16" "a < 256" "(b::nat) < 256"
  shows "a = b"
proof -
  have "a div 16 < 16" "b div 16 < 16" using assms(3,4) by simp_all
  with assms(1) have "a div 16 = b div 16" by simp
  then have "a div 16 * 16 + a mod 16 = b div 16 * 16 + b mod 16" using assms(2) by simp
  then show ?thesis by (simp only: div_mult_mod_eq)
qed

lemma percentByte_inj:
  assumes "percentByte a @ X = percentByte b @ Y" "a < 256" "b < 256"
  shows "a = b \<and> X = Y"
proof -
  from assms(1) have e: "hexDigit (a div 16) = hexDigit (b div 16)" "hexDigit a = hexDigit b"
    and xy: "X = Y"
    by (simp_all add: percentByte_def)
  from e(1) have "(a div 16) mod 16 = (b div 16) mod 16" by (rule hexDigit_inj)
  moreover from e(2) have "a mod 16 = b mod 16" by (rule hexDigit_inj)
  ultimately have "a = b" using assms(2,3) by (rule byte_eq)
  with xy show ?thesis by simp
qed

lemma unreserved_not_special:
  "unreserved c \<Longrightarrow> c \<noteq> CHR ''&'' \<and> c \<noteq> CHR ''='' \<and> c \<noteq> CHR ''+'' \<and> c \<noteq> CHR ''%'' \<and> c \<noteq> CHR '' ''"
  by (auto simp: unreserved_def)

lemma percentByte_set: "set (percentByte b) \<subseteq> {CHR ''%''} \<union> range hexDigit"
  by (auto simp: percentByte_def)

lemma urlencodeChar_no_special:
  "CHR ''&'' \<notin> set (urlencodeChar c)" "CHR ''='' \<notin> set (urlencodeChar c)"
  using unreserved_not_special[of c] hexDigit_not_special hexDigit_not_special[symmetric]
  by (auto simp add: urlencodeChar_def utf8_def Let_def percentByte_def)

lemma urlencode_no_special:
  "CHR ''&'' \<notin> set (urlencode s)" "CHR ''='' \<notin> set (urlencode s)"
  using urlencodeChar_no_special by (auto simp: urlencode_def)

lemma urlencodeChar_cases:
  obtains (plain) "unreserved c" "urlencodeChar c = [c]"
  | (space) "\<not> unreserved c" "c = CHR '' ''" "urlencodeChar c = ''+''"
  | (one) "\<not> unreserved c" "c \<noteq> CHR '' ''" "(of_char c :: nat) < 128"
      "urlencodeChar c = percentByte (of_char c)"
  | (two) "\<not> unreserved c" "c \<noteq> CHR '' ''" "\<not> (of_char c :: nat) < 128"
      "urlencodeChar c = percentByte (192 + of_char c div 64) @ percentByte (128 + of_char c mod 64)"
  by (cases "unreserved c"; cases "c = CHR '' ''"; cases "(of_char c :: nat) < 128")
    (auto simp: urlencodeChar_def utf8_def Let_def)

lemma percentByte_hd: "percentByte b = CHR ''%'' # tl (percentByte b)"
  by (simp add: percentByte_def)

lemma urlencodeChar_inj:
  assumes "urlencodeChar c @ X = urlencodeChar d @ Y"
  shows "c = d \<and> X = Y"
proof -
  have c256: "(of_char c :: nat) < 256" and d256: "(of_char d :: nat) < 256" by simp_all
  have hi: "\<And>e. (192 + (of_char e :: nat) div 64) < 256" 
  proof -
    fix e :: char
    have "(of_char e :: nat) < 256" by simp
    then have "(of_char e :: nat) div 64 < 4" by (simp add: less_mult_imp_div_less)
    then show "(192 + (of_char e :: nat) div 64) < 256" by simp
  qed
  have lo: "\<And>e. (128 + (of_char e :: nat) mod 64) < 256"
  proof -
    fix e :: char
    have "(of_char e :: nat) mod 64 < 64" by simp
    then show "(128 + (of_char e :: nat) mod 64) < 256" by simp
  qed
  show ?thesis
  proof (cases c rule: urlencodeChar_cases)
    case plain
    note c = plain
    show ?thesis
    proof (cases d rule: urlencodeChar_cases)
      case plain
      with c assms show ?thesis by simp
    next
      case space
      with c assms unreserved_not_special[of c] show ?thesis by simp
    next
      case one
      with c assms unreserved_not_special[of c] show ?thesis by (simp add: percentByte_def)
    next
      case two
      with c assms unreserved_not_special[of c] show ?thesis by (simp add: percentByte_def)
    qed
  next
    case space
    note c = space
    show ?thesis
    proof (cases d rule: urlencodeChar_cases)
      case plain
      with c assms unreserved_not_special[of d] show ?thesis by auto
    next
      case space
      with c assms show ?thesis by simp
    next
      case one
      with c assms show ?thesis by (simp add: percentByte_def)
    next
      case two
      with c assms show ?thesis by (simp add: percentByte_def)
    qed
  next
    case one
    note c = one
    show ?thesis
    proof (cases d rule: urlencodeChar_cases)
      case plain
      with c assms unreserved_not_special[of d] show ?thesis by (auto simp: percentByte_def)
    next
      case space
      with c assms show ?thesis by (simp add: percentByte_def)
    next
      case one
      with c assms have "percentByte (of_char c) @ X = percentByte (of_char d) @ Y" by simp
      from percentByte_inj[OF this c256 d256] show ?thesis by simp
    next
      case two
      with c assms have "percentByte (of_char c) @ X =
        percentByte (192 + of_char d div 64) @ (percentByte (128 + of_char d mod 64) @ Y)" by simp
      from percentByte_inj[OF this c256 hi] c(3) show ?thesis by simp
    qed
  next
    case two
    note c = two
    show ?thesis
    proof (cases d rule: urlencodeChar_cases)
      case plain
      with c assms unreserved_not_special[of d] show ?thesis by (auto simp: percentByte_def)
    next
      case space
      with c assms show ?thesis by (simp add: percentByte_def)
    next
      case one
      with c assms have "percentByte (of_char d) @ Y =
        percentByte (192 + of_char c div 64) @ (percentByte (128 + of_char c mod 64) @ X)" by simp
      from percentByte_inj[OF this d256 hi] one(3) show ?thesis by simp
    next
      case two
      with c assms have e: "percentByte (192 + of_char c div 64) @ (percentByte (128 + of_char c mod 64) @ X) =
        percentByte (192 + of_char d div 64) @ (percentByte (128 + of_char d mod 64) @ Y)" by simp
      from percentByte_inj[OF e hi hi] have h: "(of_char c :: nat) div 64 = of_char d div 64"
        and r: "percentByte (128 + of_char c mod 64) @ X = percentByte (128 + of_char d mod 64) @ Y"
        by simp_all
      from percentByte_inj[OF r lo lo] have l: "(of_char c :: nat) mod 64 = of_char d mod 64"
        and xy: "X = Y" by simp_all
      have "(of_char c :: nat) div 64 * 64 + of_char c mod 64 = of_char d div 64 * 64 + of_char d mod 64"
        using h l by simp
      then have "(of_char c :: nat) = of_char d" by (simp only: div_mult_mod_eq)
      with xy show ?thesis by simp
    qed
  qed
qed

lemma urlencode_Cons: "urlencode (c # s) = urlencodeChar c @ urlencode s"
  by (simp add: urlencode_def)

lemma urlencodeChar_nonempty: "urlencodeChar c \<noteq> []"
  by (cases c rule: urlencodeChar_cases) (simp_all add: percentByte_def)

lemma urlencode_inj_append:
  "urlencode s @ CHR ''='' # X = urlencode t @ CHR ''='' # Y \<Longrightarrow> s = t \<and> X = Y"
proof (induction s arbitrary: t)
  case Nil
  show ?case
  proof (cases t)
    case Nil
    with Nil.prems show ?thesis by (simp add: urlencode_def)
  next
    case (Cons d t')
    from Nil.prems Cons have "CHR ''='' # X = urlencodeChar d @ (urlencode t' @ CHR ''='' # Y)"
      by (simp add: urlencode_def)
    then have "CHR ''='' \<in> set (urlencodeChar d)"
      using urlencodeChar_nonempty[of d] by (cases "urlencodeChar d") auto
    with urlencodeChar_no_special(2) show ?thesis by blast
  qed
next
  case (Cons c s)
  show ?case
  proof (cases t)
    case Nil
    from Cons.prems Nil have "urlencodeChar c @ (urlencode s @ CHR ''='' # X) = CHR ''='' # Y"
      by (simp add: urlencode_def)
    then have "CHR ''='' \<in> set (urlencodeChar c)"
      using urlencodeChar_nonempty[of c] by (cases "urlencodeChar c") auto
    with urlencodeChar_no_special(2) show ?thesis by blast
  next
    case (Cons d t')
    with Cons.prems have "urlencodeChar c @ (urlencode s @ CHR ''='' # X) =
      urlencodeChar d @ (urlencode t' @ CHR ''='' # Y)" by (simp add: urlencode_Cons)
    from urlencodeChar_inj[OF this] have "c = d" "urlencode s @ CHR ''='' # X = urlencode t' @ CHR ''='' # Y"
      by simp_all
    with Cons.IH[of t'] Cons show ?thesis by simp
  qed
qed

lemma urlencode_inj: "urlencode s = urlencode t \<Longrightarrow> s = t"
  using urlencode_inj_append[of s "[]" t "[]"] by simp

subsection \<open>Occurrences of a parameter in a query string\<close>

lemma splitOn_nonempty: "splitOn d s \<noteq> []"
  by (induction s) (auto split: list.splits)

lemma splitOn_plain: "d \<notin> set x \<Longrightarrow> splitOn d x = [x]"
  by (induction x) auto

lemma splitOn_append: "d \<notin> set x \<Longrightarrow> splitOn d (x @ d # rest) = x # splitOn d rest"
  by (induction x) auto

lemma splitOn_join:
  "xs \<noteq> [] \<Longrightarrow> (\<forall>x\<in>set xs. d \<notin> set x) \<Longrightarrow> splitOn d (join [d] xs) = xs"
proof (induction "[d]" xs rule: join.induct)
  case 1
  then show ?case by simp
next
  case (2 x)
  then show ?case by (simp add: splitOn_plain)
next
  case (3 x y ys)
  then show ?case by (simp add: splitOn_append)
qed

lemma join_nonempty: "xs \<noteq> [] \<Longrightarrow> (\<forall>x\<in>set xs. x \<noteq> []) \<Longrightarrow> join sep xs \<noteq> []"
  by (induction sep xs rule: join.induct) auto

lemma serializePair_no_amp: "CHR ''&'' \<notin> set (serializePair p)"
  using urlencode_no_special(1) by (simp add: serializePair_def)

lemma serializePair_nonempty: "serializePair p \<noteq> []"
  by (simp add: serializePair_def)

lemma occurrences_toString: "occurrences (searchParams_toString ps) = map serializePair ps"
proof (cases ps)
  case Nil
  then show ?thesis by (simp add: occurrences_def searchParams_toString_def)
next
  case (Cons p ps')
  let ?xs = "map serializePair ps"
  have ne: "?xs \<noteq> []" using Cons by simp
  have "\<forall>x\<in>set ?xs. x \<noteq> []" using serializePair_nonempty by auto
  with ne have "join ''&'' ?xs \<noteq> []" by (rule join_nonempty)
  moreover have "\<forall>x\<in>set ?xs. CHR ''&'' \<notin> set x" using serializePair_no_amp by auto
  with ne have "splitOn CHR ''&'' (join ''&'' ?xs) = ?xs" by (rule splitOn_join)
  ultimately show ?thesis by (simp add: occurrences_def searchParams_toString_def)
qed

lemma startsWith_serializePair:
  "startsWith (serializePair p) (urlencode k @ ''='') \<longleftrightarrow> fst p = k"
proof
  assume "startsWith (serializePair p) (urlencode k @ ''='')"
  then have "take (length (urlencode k @ ''='')) (serializePair p) = urlencode k @ ''=''"
    by (simp add: startsWith_def)
  then have "serializePair p = (urlencode k @ ''='') @ drop (length (urlencode k @ ''='')) (serializePair p)"
    by (metis append_take_drop_id)
  then have "urlencode (fst p) @ CHR ''='' # urlencode (snd p)
     = urlencode k @ CHR ''='' # drop (length (urlencode k @ ''='')) (serializePair p)"
    by (simp add: serializePair_def)
  then show "fst p = k" by (rule urlencode_inj_append[THEN conjunct1])
next
  assume "fst p = k"
  then show "startsWith (serializePair p) (urlencode k @ ''='')"
    by (simp add: startsWith_def serializePair_def)
qed

lemma occurrencesOf_toString:
  "occurrencesOf k (searchParams_toString ps) = map serializePair (filter (\<lambda>p. fst p = k) ps)"
  by (simp add: occurrencesOf_def occurrences_toString filter_map comp_def startsWith_serializePair)

lemma filter_key_distinct:
  "distinct (map fst ps) \<Longrightarrow> (k, v) \<in> set ps \<Longrightarrow> filter (\<lambda>p. fst p = k) ps = [(k, v)]"
proof (induction ps)
  case Nil
  then show ?case by simp
next
  case (Cons p ps)
  show ?case
  proof (cases "p = (k, v)")
    case True
    with Cons.prems have "\<forall>q\<in>set ps. fst q \<noteq> k" by force
    then have "filter (\<lambda>p. fst p = k) ps = []" by (simp add: filter_empty_conv)
    with True show ?thesis by simp
  next
    case False
    with Cons.prems have in_ps: "(k, v) \<in> set ps" by simp
    then have "k \<in> fst ` set ps" by force
    with Cons.prems have "fst p \<noteq> k" by auto
    with Cons in_ps show ?thesis by simp
  qed
qed

lemma filter_key_absent:
  "k \<notin> fst ` set ps \<Longrightarrow> filter (\<lambda>p. fst p = k) ps = []"
  by (auto simp: filter_empty_conv)

subsection \<open>Objects and the parameter filter\<close>

lemma map_of_setProp: "map_of (setProp obj k v) = (map_of obj)(k \<mapsto> v)"
  by (induction obj) (auto simp: fun_eq_iff)

lemma keys_setProp: "fst ` set (setProp obj k v) = insert k (fst ` set obj)"
  by (induction obj) auto

lemma setProp_new: "k \<notin> fst ` set obj \<Longrightarrow> setProp obj k v = obj @ [(k, v)]"
  by (induction obj) auto

lemma distinct_setProp: "distinct (map fst obj) \<Longrightarrow> distinct (map fst (setProp obj k v))"
  by (induction obj) (auto simp: keys_setProp)

lemma fold_assignProp_distinct:
  "distinct (map fst (acc @ xs)) \<Longrightarrow>
     fold (\<lambda>(key, v) obj. assignProp obj key v) xs acc
       = acc @ filter (\<lambda>(key, v). key \<noteq> ''__proto__'') xs"
proof (induction xs arbitrary: acc)
  case Nil
  then show ?case by simp
next
  case (Cons x xs)
  obtain k v where x: "x = (k, v)" by (cases x)
  show ?case
  proof (cases "k = ''__proto__''")
    case True
    from Cons.prems have "distinct (map fst (acc @ xs))" by simp
    from Cons.IH[OF this] True x show ?thesis by (simp add: assignProp_def)
  next
    case False
    from Cons.prems x have "k \<notin> fst ` set acc" by auto
    then have sp: "setProp acc k v = acc @ [(k, v)]" by (rule setProp_new)
    from Cons.prems x have "distinct (map fst ((acc @ [(k, v)]) @ xs))" by simp
    from Cons.IH[OF this] sp x False show ?thesis by (simp add: assignProp_def)
  qed
qed

lemma filterParams_distinct:
  "distinct (map fst params) \<Longrightarrow>
     filterParams params = filter (\<lambda>(key, v). keepParam v \<and> key \<noteq> ''__proto__'') params"
proof -
  assume "distinct (map fst params)"
  then have "distinct (map fst ([] @ filter (\<lambda>(key, v). keepParam v) params))"
    by (simp add: distinct_map_filter)
  from fold_assignProp_distinct[OF this]
  have "filterParams params
      = filter (\<lambda>(key, v). key \<noteq> ''__proto__'') (filter (\<lambda>(key, v). keepParam v) params)"
    by (simp add: filterParams_def)
  also have "\<dots> = filter (\<lambda>(key, v). keepParam v \<and> key \<noteq> ''__proto__'') params"
    by (induction params) auto
  finally show ?thesis .
qed

lemma fold_append: "fold (\<lambda>(key, v) searchParams. searchParams @ [(key, paramValue v)]) xs acc
  = acc @ map (\<lambda>(key, v). (key, paramValue v)) xs"
  by (induction xs arbitrary: acc) (auto split: prod.splits)

lemma appendParams_map: "appendParams xs = map (\<lambda>(key, v). (key, paramValue v)) xs"
  by (simp add: appendParams_def fold_append)

lemma filterParamsPaged_distinct:
  "distinct (map fst params) \<Longrightarrow>
     filterParamsPaged params = filter (\<lambda>(key, v). key \<noteq> ''__proto__'') (definedEntries params)"
proof -
  assume d: "distinct (map fst params)"
  have "map fst (definedEntries params) = map fst (filter (\<lambda>(key, v). v \<noteq> None) params)"
    by (induction params) (auto simp: definedEntries_def split: option.splits)
  with d have "distinct (map fst ([] @ definedEntries params))"
    by (simp add: distinct_map_filter)
  from fold_assignProp_distinct[OF this] show ?thesis by (simp add: filterParamsPaged_def)
qed

lemma distinct_defaultLimit: "distinct (map fst params) \<Longrightarrow> distinct (map fst (defaultLimit params))"
  by (simp add: defaultLimit_def distinct_setProp)

lemma distinct_defaultLimitPaged:
  "distinct (map fst params) \<Longrightarrow> distinct (map fst (defaultLimitPaged params))"
  by (simp add: defaultLimitPaged_def distinct_setProp)

text \<open>The occurrences of a key in the query string of \<^verbatim>\<open>renderGet\<close>.\<close>

lemma occurrencesOf_queryString:
  assumes "distinct (map fst params)"
  shows "occurrencesOf k (queryString params) =
     (if k = ''__proto__'' then []
      else map (\<lambda>(key, v). serializePair (key, paramValue v))
             (filter (\<lambda>(key, v). key = k \<and> keepParam v) params))"
proof -
  have "occurrencesOf k (queryString params) =
    map serializePair (filter (\<lambda>p. fst p = k)
      (map (\<lambda>(key, v). (key, paramValue v))
         (filter (\<lambda>(key, v). keepParam v \<and> key \<noteq> ''__proto__'') params)))"
    using assms by (simp add: queryString_def occurrencesOf_toString appendParams_map filterParams_distinct)
  also have "\<dots> = (if k = ''__proto__'' then []
      else map (\<lambda>(key, v). serializePair (key, paramValue v))
             (filter (\<lambda>(key, v). key = k \<and> keepParam v) params))"
    by (induction params) (auto split: prod.splits)
  finally show ?thesis .
qed

lemma filter_key_keep:
  assumes "distinct (map fst ps)"
  shows "filter (\<lambda>(key, v). key = k \<and> keepParam v) ps =
     (case map_of ps k of None \<Rightarrow> [] | Some v \<Rightarrow> if keepParam v then [(k, v)] else [])"
  using assms
proof (induction ps)
  case Nil
  then show ?case by simp
next
  case (Cons p ps)
  obtain k' v' where p: "p = (k', v')" by (cases p)
  show ?case
  proof (cases "k' = k")
    case True
    with Cons.prems p have "k \<notin> fst ` set ps" by auto
    then have "filter (\<lambda>(key, v). key = k \<and> keepParam v) ps = []"
      by (force simp: filter_empty_conv)
    with True p show ?thesis by simp
  next
    case False
    with Cons p show ?thesis by simp
  qed
qed

lemma occurrencesOf_queryString_map_of:
  assumes "distinct (map fst params)"
  shows "occurrencesOf k (queryString params) =
     (if k = ''__proto__'' then []
      else case map_of params k of None \<Rightarrow> []
           | Some v \<Rightarrow> if keepParam v then [urlencode k @ ''='' @ urlencode (paramValue v)] else [])"
  using assms
  by (simp add: occurrencesOf_queryString filter_key_keep serializePair_def split: option.splits)

lemma map_of_defaultLimit:
  "map_of (defaultLimit params) =
     (if truthy (getProp params ''limit'') then map_of params
      else (map_of params)(''limit'' \<mapsto> Str ''100''))"
  by (simp add: defaultLimit_def map_of_setProp)


lemmas eval_defs =
  queryString_def appendParams_def filterParams_def assignProp_def defaultLimit_def getProp_def
  keepParam_def
  paramValue_def searchParams_toString_def serializePair_def urlencode_def urlencodeChar_def
  unreserved_def utf8_def percentByte_def hexDigit_def

subsection \<open>The query string of renderGet\<close>

text \<open>
  The request \<^verbatim>\<open>renderGet\<close> hands to the transport: the server goes on from the state the
  transport reaches on it, and a recording transport has kept just this request.
\<close>

lemma renderGet_request:
  "fst (snd (renderGet fetch s token path params))
     = snd (fetch s (getRequest token path (queryString (defaultLimit params))))"
  by (simp add: renderGet_def Let_def split: prod.splits)

lemma renderGet_recorded:
  "fst (snd (renderGet recorder reqs token path params))
     = reqs @ [getRequest token path (queryString (defaultLimit params))]"
  by (simp add: renderGet_request recorder_def)

text \<open>
  What \<^verbatim>\<open>renderGet\<close> does for the keys other than \<^verbatim>\<open>__proto__\<close>. Let the bag have pairwise
  different keys, as every object has. \<^verbatim>\<open>renderGet\<close> sends one request, and in its query
  string a key whose value is an empty array, or is \<^verbatim>\<open>undefined\<close> and not \<^verbatim>\<open>limit\<close>, has
  no occurrence, and neither has a key other than \<^verbatim>\<open>limit\<close> that the bag lacks. When the
  bag has no truthy \<^verbatim>\<open>limit\<close>, the only occurrence of \<^verbatim>\<open>limit\<close> is \<^verbatim>\<open>limit=100\<close>. A string
  value (a non-empty one for \<^verbatim>\<open>limit\<close>) under a key other than \<^verbatim>\<open>__proto__\<close> occurs once,
  as it is up to percent-encoding. The key \<^verbatim>\<open>__proto__\<close> has no occurrence, whatever its
  value.
\<close>

lemma renderGet_query_filtering:
  assumes "distinct (map fst params)"
  shows "\<exists>qs. fst (snd (renderGet recorder [] token path params)) = [getRequest token path qs]
       \<and> ((k, v) \<in> set params \<and> (v = Undefined \<and> k \<noteq> ''limit'' \<or> v = Arr []) \<longrightarrow>
            occurrencesOf k qs = [])
       \<and> (k \<notin> fst ` set params \<and> k \<noteq> ''limit'' \<longrightarrow> occurrencesOf k qs = [])
       \<and> (\<not> truthy (getProp params ''limit'') \<longrightarrow> occurrencesOf ''limit'' qs = [''limit=100''])
       \<and> ((k, Str x) \<in> set params \<and> (k \<noteq> ''limit'' \<or> x \<noteq> []) \<and> k \<noteq> ''__proto__'' \<longrightarrow>
            occurrencesOf k qs = [urlencode k @ ''='' @ urlencode x])
       \<and> occurrencesOf ''__proto__'' qs = []"
proof -
  let ?qs = "queryString (defaultLimit params)"
  have d: "distinct (map fst (defaultLimit params))"
    using assms by (rule distinct_defaultLimit)
  note occ = occurrencesOf_queryString_map_of[OF d]
  have mem: "\<And>a b. (a, b) \<in> set params \<Longrightarrow> map_of params a = Some b"
    using assms by simp
  have 0: "fst (snd (renderGet recorder [] token path params)) = [getRequest token path ?qs]"
    by (simp add: renderGet_recorded)
  have 1: "(k, v) \<in> set params \<and> (v = Undefined \<and> k \<noteq> ''limit'' \<or> v = Arr []) \<longrightarrow>
            occurrencesOf k ?qs = []"
    using mem[of k v] by (auto simp: occ map_of_defaultLimit keepParam_def getProp_def)
  have 2: "k \<notin> fst ` set params \<and> k \<noteq> ''limit'' \<longrightarrow> occurrencesOf k ?qs = []"
  proof (intro impI, elim conjE)
    assume "k \<notin> fst ` set params" "k \<noteq> ''limit''"
    then have "map_of params k = None" by (simp add: map_of_eq_None_iff)
    with \<open>k \<noteq> ''limit''\<close> show "occurrencesOf k ?qs = []"
      by (simp add: occ map_of_defaultLimit)
  qed
  have 3: "\<not> truthy (getProp params ''limit'') \<longrightarrow> occurrencesOf ''limit'' ?qs = [''limit=100'']"
    by (simp add: occ map_of_defaultLimit keepParam_def paramValue_def urlencode_def
        urlencodeChar_def unreserved_def)
  have 4: "(k, Str x) \<in> set params \<and> (k \<noteq> ''limit'' \<or> x \<noteq> []) \<and> k \<noteq> ''__proto__'' \<longrightarrow>
            occurrencesOf k ?qs = [urlencode k @ ''='' @ urlencode x]"
  proof (intro impI, elim conjE)
    assume a: "(k, Str x) \<in> set params" "k \<noteq> ''limit'' \<or> x \<noteq> []" and np: "k \<noteq> ''__proto__''"
    from a(1) have m: "map_of params k = Some (Str x)" by (rule mem)
    have "map_of (defaultLimit params) k = Some (Str x)"
    proof (cases "k = ''limit''")
      case True
      with a(2) m have "truthy (getProp params ''limit'')" by (simp add: getProp_def)
      with m show ?thesis by (simp add: map_of_defaultLimit)
    next
      case False
      with m show ?thesis by (simp add: map_of_defaultLimit)
    qed
    with np show "occurrencesOf k ?qs = [urlencode k @ ''='' @ urlencode x]"
      by (simp add: occ keepParam_def paramValue_def)
  qed
  have 5: "occurrencesOf ''__proto__'' ?qs = []" by (simp add: occ)
  from 0 1 2 3 4 5 show ?thesis by blast
qed

text \<open>
  A non-empty array value under a key other than \<^verbatim>\<open>__proto__\<close> occurs in the query string
  that \<^verbatim>\<open>renderGet\<close> sends exactly once, its elements joined with commas, each comma
  percent-encoded as \<^verbatim>\<open>%2C\<close>.
\<close>

lemma renderGet_array_joined:
  assumes "distinct (map fst params)"
  shows "\<exists>qs. fst (snd (renderGet recorder [] token path params)) = [getRequest token path qs]
       \<and> ((k, Arr xs) \<in> set params \<and> xs \<noteq> [] \<and> k \<noteq> ''__proto__'' \<longrightarrow>
            occurrencesOf k qs = [urlencode k @ ''='' @ urlencode (join '','' xs)])
       \<and> occurrencesOf ''__proto__'' qs = []"
proof -
  let ?qs = "queryString (defaultLimit params)"
  have d: "distinct (map fst (defaultLimit params))"
    using assms by (rule distinct_defaultLimit)
  note occ = occurrencesOf_queryString_map_of[OF d]
  have 0: "fst (snd (renderGet recorder [] token path params)) = [getRequest token path ?qs]"
    by (simp add: renderGet_recorded)
  have 1: "(k, Arr xs) \<in> set params \<and> xs \<noteq> [] \<and> k \<noteq> ''__proto__'' \<longrightarrow>
            occurrencesOf k ?qs = [urlencode k @ ''='' @ urlencode (join '','' xs)]"
  proof (intro impI, elim conjE)
    assume a: "(k, Arr xs) \<in> set params" "xs \<noteq> []" and np: "k \<noteq> ''__proto__''"
    from a(1) assms have m: "map_of params k = Some (Arr xs)" by simp
    then have "map_of (defaultLimit params) k = Some (Arr xs)"
      by (auto simp: map_of_defaultLimit getProp_def)
    with a(2) np show "occurrencesOf k ?qs = [urlencode k @ ''='' @ urlencode (join '','' xs)]"
      by (simp add: occ keepParam_def paramValue_def)
  qed
  have 2: "occurrencesOf ''__proto__'' ?qs = []" by (simp add: occ)
  from 0 1 2 show ?thesis by blast
qed

lemmas occ_defs =
  occurrencesOf_def occurrences_def startsWith_def urlencode_def urlencodeChar_def unreserved_def

text \<open>
  Claim C7. Every value of the bag that is neither \<^verbatim>\<open>undefined\<close> nor an empty array is
  to pass into the query string. \<^verbatim>\<open>renderGet\<close> loses the one under the key \<^verbatim>\<open>__proto__\<close>:
  called with the bag \<^verbatim>\<open>{"__proto__": "x", id: "y"}\<close>, where \<^verbatim>\<open>__proto__\<close> is an own
  property as \<^verbatim>\<open>JSON.parse\<close> makes it, and with a token that its headers take, it sends
  one request, whose query string is \<^verbatim>\<open>id=y&limit=100\<close>. The value \<^verbatim>\<open>x\<close> passes the filter
  and has no occurrence in the query string. Under the key \<^verbatim>\<open>proto\<close> the same value is
  sent, and so are the other values of the bag in both calls.
\<close>

theorem renderGet_loses_proto_value:
  "fst (snd (renderGet (recorder :: (request list, unit) fetch) [] ''tok'' ''services''
              [(''__proto__'', Str ''x''), (''id'', Str ''y'')]))
     = [\<lparr>meth = ''GET'', url = ''https://api.render.com/v1/services?id=y&limit=100'',
         headers = [(''Content-Type'', ''application/json''), (''Authorization'', ''Bearer tok'')],
         body = None\<rparr>]
   \<and> validToken ''tok''
   \<and> keepParam (Str ''x'')
   \<and> occurrencesOf ''__proto__'' ''id=y&limit=100'' = []
   \<and> occurrencesOf ''id'' ''id=y&limit=100'' = [''id=y'']
   \<and> occurrencesOf ''limit'' ''id=y&limit=100'' = [''limit=100'']
   \<and> fst (snd (renderGet (recorder :: (request list, unit) fetch) [] ''tok'' ''services''
              [(''proto'', Str ''x''), (''id'', Str ''y'')]))
     = [\<lparr>meth = ''GET'', url = ''https://api.render.com/v1/services?proto=x&id=y&limit=100'',
         headers = [(''Content-Type'', ''application/json''), (''Authorization'', ''Bearer tok'')],
         body = None\<rparr>]
   \<and> occurrencesOf ''proto'' ''proto=x&id=y&limit=100'' = [''proto=x'']"
proof -
  have q1: "queryString (defaultLimit [(''__proto__'', Str ''x''), (''id'', Str ''y'')])
      = ''id=y&limit=100''"
    by (simp add: eval_defs)
  have q2: "queryString (defaultLimit [(''proto'', Str ''x''), (''id'', Str ''y'')])
      = ''proto=x&id=y&limit=100''"
    by (simp add: eval_defs)
  have r1: "fst (snd (renderGet (recorder :: (request list, unit) fetch) [] ''tok'' ''services''
              [(''__proto__'', Str ''x''), (''id'', Str ''y'')]))
     = [\<lparr>meth = ''GET'', url = ''https://api.render.com/v1/services?id=y&limit=100'',
         headers = [(''Content-Type'', ''application/json''), (''Authorization'', ''Bearer tok'')],
         body = None\<rparr>]"
    by (simp add: renderGet_recorded q1 getRequest_def RENDER_API_def mkHeaders_def)
  have r2: "fst (snd (renderGet (recorder :: (request list, unit) fetch) [] ''tok'' ''services''
              [(''proto'', Str ''x''), (''id'', Str ''y'')]))
     = [\<lparr>meth = ''GET'', url = ''https://api.render.com/v1/services?proto=x&id=y&limit=100'',
         headers = [(''Content-Type'', ''application/json''), (''Authorization'', ''Bearer tok'')],
         body = None\<rparr>]"
    by (simp add: renderGet_recorded q2 getRequest_def RENDER_API_def mkHeaders_def)
  have v: "validToken ''tok''" by (simp add: validToken_def)
  have kp: "keepParam (Str ''x'')" by (simp add: keepParam_def)
  have o1: "occurrencesOf ''__proto__'' ''id=y&limit=100'' = []" by (simp add: occ_defs)
  have o2: "occurrencesOf ''id'' ''id=y&limit=100'' = [''id=y'']" by (simp add: occ_defs)
  have o3: "occurrencesOf ''limit'' ''id=y&limit=100'' = [''limit=100'']" by (simp add: occ_defs)
  have o4: "occurrencesOf ''proto'' ''proto=x&id=y&limit=100'' = [''proto=x'']"
    by (simp add: occ_defs)
  from r1 v kp o1 o2 o3 r2 o4 show ?thesis by (intro conjI)
qed

text \<open>
  Claim C8. Every non-empty array value of the bag is to be one occurrence in the query
  string, its elements joined with commas. \<^verbatim>\<open>renderGet\<close> loses the one under the key
  \<^verbatim>\<open>__proto__\<close>: called with the bag \<^verbatim>\<open>{"__proto__": ["a","b"], resource: ["a","b","c"]}\<close>,
  where \<^verbatim>\<open>__proto__\<close> is an own property, it sends one request, whose query string is
  \<^verbatim>\<open>resource=a%2Cb%2Cc&limit=100\<close>: one occurrence for \<^verbatim>\<open>resource\<close>, with the elements joined
  by percent-encoded commas, and none for the array \<^verbatim>\<open>["a","b"]\<close>. Under the key \<^verbatim>\<open>tags\<close>
  the same array is sent as the one occurrence \<^verbatim>\<open>tags=a%2Cb\<close>.
\<close>

theorem renderGet_loses_proto_array:
  "fst (snd (renderGet (recorder :: (request list, unit) fetch) [] ''tok'' ''metrics/cpu''
              [(''__proto__'', Arr [''a'', ''b'']), (''resource'', Arr [''a'', ''b'', ''c''])]))
     = [\<lparr>meth = ''GET'',
         url = ''https://api.render.com/v1/metrics/cpu?resource=a%2Cb%2Cc&limit=100'',
         headers = [(''Content-Type'', ''application/json''), (''Authorization'', ''Bearer tok'')],
         body = None\<rparr>]
   \<and> validToken ''tok''
   \<and> keepParam (Arr [''a'', ''b''])
   \<and> occurrencesOf ''__proto__'' ''resource=a%2Cb%2Cc&limit=100'' = []
   \<and> occurrencesOf ''resource'' ''resource=a%2Cb%2Cc&limit=100'' = [''resource=a%2Cb%2Cc'']
   \<and> fst (snd (renderGet (recorder :: (request list, unit) fetch) [] ''tok'' ''metrics/cpu''
              [(''tags'', Arr [''a'', ''b'']), (''resource'', Arr [''a'', ''b'', ''c''])]))
     = [\<lparr>meth = ''GET'',
         url = ''https://api.render.com/v1/metrics/cpu?tags=a%2Cb&resource=a%2Cb%2Cc&limit=100'',
         headers = [(''Content-Type'', ''application/json''), (''Authorization'', ''Bearer tok'')],
         body = None\<rparr>]
   \<and> occurrencesOf ''tags'' ''tags=a%2Cb&resource=a%2Cb%2Cc&limit=100'' = [''tags=a%2Cb'']"
proof -
  have q1: "queryString (defaultLimit
        [(''__proto__'', Arr [''a'', ''b'']), (''resource'', Arr [''a'', ''b'', ''c''])])
      = ''resource=a%2Cb%2Cc&limit=100''"
    by (simp add: eval_defs)
  have q2: "queryString (defaultLimit
        [(''tags'', Arr [''a'', ''b'']), (''resource'', Arr [''a'', ''b'', ''c''])])
      = ''tags=a%2Cb&resource=a%2Cb%2Cc&limit=100''"
    by (simp add: eval_defs)
  have r1: "fst (snd (renderGet (recorder :: (request list, unit) fetch) [] ''tok'' ''metrics/cpu''
              [(''__proto__'', Arr [''a'', ''b'']), (''resource'', Arr [''a'', ''b'', ''c''])]))
     = [\<lparr>meth = ''GET'',
         url = ''https://api.render.com/v1/metrics/cpu?resource=a%2Cb%2Cc&limit=100'',
         headers = [(''Content-Type'', ''application/json''), (''Authorization'', ''Bearer tok'')],
         body = None\<rparr>]"
    by (simp add: renderGet_recorded q1 getRequest_def RENDER_API_def mkHeaders_def)
  have r2: "fst (snd (renderGet (recorder :: (request list, unit) fetch) [] ''tok'' ''metrics/cpu''
              [(''tags'', Arr [''a'', ''b'']), (''resource'', Arr [''a'', ''b'', ''c''])]))
     = [\<lparr>meth = ''GET'',
         url = ''https://api.render.com/v1/metrics/cpu?tags=a%2Cb&resource=a%2Cb%2Cc&limit=100'',
         headers = [(''Content-Type'', ''application/json''), (''Authorization'', ''Bearer tok'')],
         body = None\<rparr>]"
    by (simp add: renderGet_recorded q2 getRequest_def RENDER_API_def mkHeaders_def)
  have v: "validToken ''tok''" by (simp add: validToken_def)
  have kp: "keepParam (Arr [''a'', ''b''])" by (simp add: keepParam_def)
  have o1: "occurrencesOf ''__proto__'' ''resource=a%2Cb%2Cc&limit=100'' = []"
    by (simp add: occ_defs)
  have o2: "occurrencesOf ''resource'' ''resource=a%2Cb%2Cc&limit=100'' = [''resource=a%2Cb%2Cc'']"
    by (simp add: occ_defs)
  have o3: "occurrencesOf ''tags'' ''tags=a%2Cb&resource=a%2Cb%2Cc&limit=100'' = [''tags=a%2Cb'']"
    by (simp add: occ_defs)
  from r1 v kp o1 o2 r2 o3 show ?thesis by (intro conjI)
qed

subsection \<open>Identifier classes\<close>

text \<open>
  The predicates of \<^verbatim>\<open>src/index.ts\<close>. For each of the eight identifier prefixes \<open>srv\<close>,
  \<open>evm\<close>, \<open>crn\<close>, \<open>job\<close>, \<open>red\<close>, \<open>dpg\<close>, \<open>evg\<close>, \<open>rgc\<close> and every suffix \<open>s\<close>,
  exactly one classifier predicate holds of prefix, hyphen and suffix: the one of that
  prefix. No predicate accepts a string that bears the prefix of another class.
\<close>

lemma classifiers_exclusive:
  "(isServiceID (''srv-'' @ s) \<and> \<not> isEnvironmentID (''srv-'' @ s) \<and> \<not> isCronID (''srv-'' @ s)
      \<and> \<not> isJobID (''srv-'' @ s) \<and> \<not> isRedisID (''srv-'' @ s) \<and> \<not> isPostgresID (''srv-'' @ s)
      \<and> \<not> isEnvironmentGroupID (''srv-'' @ s) \<and> \<not> isRegistryCredentialID (''srv-'' @ s))
   \<and> (\<not> isServiceID (''evm-'' @ s) \<and> isEnvironmentID (''evm-'' @ s) \<and> \<not> isCronID (''evm-'' @ s)
      \<and> \<not> isJobID (''evm-'' @ s) \<and> \<not> isRedisID (''evm-'' @ s) \<and> \<not> isPostgresID (''evm-'' @ s)
      \<and> \<not> isEnvironmentGroupID (''evm-'' @ s) \<and> \<not> isRegistryCredentialID (''evm-'' @ s))
   \<and> (\<not> isServiceID (''crn-'' @ s) \<and> \<not> isEnvironmentID (''crn-'' @ s) \<and> isCronID (''crn-'' @ s)
      \<and> \<not> isJobID (''crn-'' @ s) \<and> \<not> isRedisID (''crn-'' @ s) \<and> \<not> isPostgresID (''crn-'' @ s)
      \<and> \<not> isEnvironmentGroupID (''crn-'' @ s) \<and> \<not> isRegistryCredentialID (''crn-'' @ s))
   \<and> (\<not> isServiceID (''job-'' @ s) \<and> \<not> isEnvironmentID (''job-'' @ s) \<and> \<not> isCronID (''job-'' @ s)
      \<and> isJobID (''job-'' @ s) \<and> \<not> isRedisID (''job-'' @ s) \<and> \<not> isPostgresID (''job-'' @ s)
      \<and> \<not> isEnvironmentGroupID (''job-'' @ s) \<and> \<not> isRegistryCredentialID (''job-'' @ s))
   \<and> (\<not> isServiceID (''red-'' @ s) \<and> \<not> isEnvironmentID (''red-'' @ s) \<and> \<not> isCronID (''red-'' @ s)
      \<and> \<not> isJobID (''red-'' @ s) \<and> isRedisID (''red-'' @ s) \<and> \<not> isPostgresID (''red-'' @ s)
      \<and> \<not> isEnvironmentGroupID (''red-'' @ s) \<and> \<not> isRegistryCredentialID (''red-'' @ s))
   \<and> (\<not> isServiceID (''dpg-'' @ s) \<and> \<not> isEnvironmentID (''dpg-'' @ s) \<and> \<not> isCronID (''dpg-'' @ s)
      \<and> \<not> isJobID (''dpg-'' @ s) \<and> \<not> isRedisID (''dpg-'' @ s) \<and> isPostgresID (''dpg-'' @ s)
      \<and> \<not> isEnvironmentGroupID (''dpg-'' @ s) \<and> \<not> isRegistryCredentialID (''dpg-'' @ s))
   \<and> (\<not> isServiceID (''evg-'' @ s) \<and> \<not> isEnvironmentID (''evg-'' @ s) \<and> \<not> isCronID (''evg-'' @ s)
      \<and> \<not> isJobID (''evg-'' @ s) \<and> \<not> isRedisID (''evg-'' @ s) \<and> \<not> isPostgresID (''evg-'' @ s)
      \<and> isEnvironmentGroupID (''evg-'' @ s) \<and> \<not> isRegistryCredentialID (''evg-'' @ s))
   \<and> (\<not> isServiceID (''rgc-'' @ s) \<and> \<not> isEnvironmentID (''rgc-'' @ s) \<and> \<not> isCronID (''rgc-'' @ s)
      \<and> \<not> isJobID (''rgc-'' @ s) \<and> \<not> isRedisID (''rgc-'' @ s) \<and> \<not> isPostgresID (''rgc-'' @ s)
      \<and> \<not> isEnvironmentGroupID (''rgc-'' @ s) \<and> isRegistryCredentialID (''rgc-'' @ s))"
  by (simp add: isServiceID_def isEnvironmentID_def isCronID_def isJobID_def isRedisID_def
      isPostgresID_def isEnvironmentGroupID_def isRegistryCredentialID_def startsWith_def)


text \<open>
  Claim C9. Exactly one classifier predicate is to hold of a known prefix followed by a
  hyphen and a suffix. The predicates of the earlier revision break it: there
  \<^verbatim>\<open>isRedisID\<close> rejects \<^verbatim>\<open>red-abc123\<close> and \<^verbatim>\<open>isPostgresID\<close> rejects \<^verbatim>\<open>dpg-abc123\<close>, so
  that no predicate holds of these, and both accept \<^verbatim>\<open>job-abc123\<close>, of which \<^verbatim>\<open>isJobID\<close>
  holds as well. The predicates of \<^verbatim>\<open>src/index.ts\<close> decide the three strings as the
  claim says.
\<close>

theorem classifiers_part001_overlap:
  "(\<not> isServiceID ''red-abc123'' \<and> \<not> isEnvironmentID ''red-abc123'' \<and> \<not> isCronID ''red-abc123''
      \<and> \<not> isJobID ''red-abc123'' \<and> \<not> isRedisID_part001 ''red-abc123''
      \<and> \<not> isPostgresID_part001 ''red-abc123'' \<and> \<not> isEnvironmentGroupID ''red-abc123''
      \<and> \<not> isRegistryCredentialID ''red-abc123'')
   \<and> (\<not> isServiceID ''dpg-abc123'' \<and> \<not> isEnvironmentID ''dpg-abc123'' \<and> \<not> isCronID ''dpg-abc123''
      \<and> \<not> isJobID ''dpg-abc123'' \<and> \<not> isRedisID_part001 ''dpg-abc123''
      \<and> \<not> isPostgresID_part001 ''dpg-abc123'' \<and> \<not> isEnvironmentGroupID ''dpg-abc123''
      \<and> \<not> isRegistryCredentialID ''dpg-abc123'')
   \<and> (isJobID ''job-abc123'' \<and> isRedisID_part001 ''job-abc123'' \<and> isPostgresID_part001 ''job-abc123'')
   \<and> (isRedisID ''red-abc123'' \<and> isPostgresID ''dpg-abc123''
      \<and> \<not> isRedisID ''job-abc123'' \<and> \<not> isPostgresID ''job-abc123'')"
  by (simp add: isServiceID_def isEnvironmentID_def isCronID_def isJobID_def isRedisID_def
      isPostgresID_def isEnvironmentGroupID_def isRegistryCredentialID_def
      isRedisID_part001_def isPostgresID_part001_def startsWith_def)

subsection \<open>The pagination loop\<close>

lemma loop_trace:
  assumes "renderGetPaged_loop fetch token path fp objs s log = Some y"
  shows "traceOK token path fp objs log y"
proof (rule renderGetPaged_loop.raw_induct[where
      P = "\<lambda>f t m fp objs s log y. traceOK t m fp objs log y", OF _ assms], goal_cases)
  case (1 loop fetch token path fp objs s log y)
  define req where "req = getRequest token path (searchParams_toString fp)"
  obtain res s' where f: "fetch s req = (res, s')" by (cases "fetch s req")
  note body = 1(2)[unfolded Let_def, folded req_def, unfolded f, simplified]
  show ?case
  proof (cases res)
    case None
    with body have y: "y = (Inl TypeError, s', log @ [(req, None)])" by simp
    show ?thesis
      unfolding traceOK_def
      by (rule exI[of _ "[]"], rule exI[of _ "(req, None)"])
        (simp add: y finalOutcome_def req_def)
  next
    case (Some r)
    note r = Some
    show ?thesis
    proof (cases "ok r")
      case False
      with body r have y: "y = (Inl (Error (errorMessage ''Unable to fetch data from render ''
                                     (statusText r) (url req) token (bodyText r))),
                        s', log @ [(req, Some r)])" by simp
      show ?thesis
        unfolding traceOK_def
        by (rule exI[of _ "[]"], rule exI[of _ "(req, Some r)"])
          (simp add: y finalOutcome_def req_def False)
    next
      case True
      note ok = True
      show ?thesis
      proof (cases "json r")
        case None
        with body r ok have y: "y = (Inl SyntaxError, s', log @ [(req, Some r)])" by simp
        show ?thesis
          unfolding traceOK_def
          by (rule exI[of _ "[]"], rule exI[of _ "(req, Some r)"])
            (simp add: y finalOutcome_def req_def ok None)
      next
        case (Some p)
        show ?thesis
        proof (cases "p = []")
          case True
          with body r ok Some have y: "y = (Inr objs, s', log @ [(req, Some r)])" by simp
          show ?thesis
            unfolding traceOK_def
            by (rule exI[of _ "[]"], rule exI[of _ "(req, Some r)"])
              (simp add: y finalOutcome_def req_def ok Some True)
        next
          case False
          let ?e0 = "(req, Some r)"
          from body r ok Some False
          have "loop fetch token path (setProp fp ''cursor'' (cursor (last p))) (objs @ p) s'
                  (log @ [?e0]) = Some y" by simp
          from 1(1)[OF this] obtain mid e where
            l: "snd (snd y) = (log @ [?e0]) @ mid @ [e]" and
            fp: "list_all fullPage mid" and
            ch: "chain token path (setProp fp ''cursor'' (cursor (last p))) (mid @ [e])" and
            fin: "finalOutcome token ((objs @ p) @ concat (map pageOf mid)) e = Some (fst y)"
            unfolding traceOK_def by blast
          have pg: "pageOf ?e0 = p" by (simp add: pageOf_def ok Some)
          show ?thesis
            unfolding traceOK_def
            by (rule exI[of _ "?e0 # mid"], rule exI[of _ e])
              (simp add: l fp ch fin[unfolded append_assoc] pg pg[unfolded req_def] fullPage_def
                False req_def)
        qed
      qed
    qed
  qed
qed

lemma loop_diverges:
  assumes "\<And>s req. \<exists>r p s'. fetch s req = (Some r, s') \<and> ok r \<and> json r = Some p \<and> p \<noteq> []"
  shows "renderGetPaged_loop fetch token path fp objs s log = None"
proof (rule ccontr)
  assume "renderGetPaged_loop fetch token path fp objs s log \<noteq> None"
  then obtain y where y: "renderGetPaged_loop fetch token path fp objs s log = Some y" by auto
  have "fetch = fetch \<longrightarrow> False"
  proof (rule renderGetPaged_loop.raw_induct[where
      P = "\<lambda>f t m fp objs s log y. f = fetch \<longrightarrow> False", OF _ y], goal_cases)
    case (1 loop f token path fp objs s log y)
    show ?case
    proof
      assume ff: "f = fetch"
      define req where "req = getRequest token path (searchParams_toString fp)"
      from assms obtain r p s' where
        f: "fetch s req = (Some r, s')" "ok r" "json r = Some p" "p \<noteq> []" by blast
      note body = 1(2)[unfolded Let_def, folded req_def, unfolded ff f, simplified]
      with f have "loop fetch token path (setProp fp ''cursor'' (cursor (last p))) (objs @ p) s'
                  (log @ [(req, Some r)]) = Some y" by simp
      from 1(1)[OF this] show False by simp
    qed
  qed
  then show False by simp
qed

lemma loop_scripted:
  assumes "\<forall>p\<in>set pages. p \<noteq> []"
  shows "\<exists>log'. renderGetPaged_loop scripted token path fp objs
            (map okPage pages @ okPage [] # rest) log
          = Some (Inr (objs @ concat pages), rest, log') \<and> length log' = length log + length pages + 1"
  using assms
proof (induction pages arbitrary: fp objs log)
  case Nil
  show ?case
    by (subst renderGetPaged_loop.simps) (simp add: okPage_def)
next
  case (Cons p pages)
  then have ne: "p \<noteq> []" and rest: "\<forall>p\<in>set pages. p \<noteq> []" by simp_all
  define req where "req = getRequest token path (searchParams_toString fp)"
  from Cons.IH[OF rest, of "setProp fp ''cursor'' (cursor (last p))" "objs @ p"
      "log @ [(req, Some (okPage p))]"]
  obtain log' where
    l: "renderGetPaged_loop scripted token path (setProp fp ''cursor'' (cursor (last p))) (objs @ p)
          (map okPage pages @ okPage [] # rest) (log @ [(req, Some (okPage p))])
          = Some (Inr ((objs @ p) @ concat pages), rest, log')"
    and n: "length log' = length (log @ [(req, Some (okPage p))]) + length pages + 1" by blast
  have "renderGetPaged_loop scripted token path fp objs
            (map okPage (p # pages) @ okPage [] # rest) log
      = renderGetPaged_loop scripted token path (setProp fp ''cursor'' (cursor (last p))) (objs @ p)
          (map okPage pages @ okPage [] # rest) (log @ [(req, Some (okPage p))])"
    by (subst renderGetPaged_loop.simps) (simp add: okPage_def ne req_def Let_def)
  with l n show ?case by simp
qed


lemma loop_answersWith:
  assumes "answersWith fetch token path fp s pages"
  shows "\<exists>s' log'. renderGetPaged_loop fetch token path fp objs s log
            = Some (Inr (objs @ concat pages), s', log')
          \<and> length log' = length log + length pages + 1"
  using assms
proof (induction pages arbitrary: fp objs s log)
  case Nil
  define req where "req = getRequest token path (searchParams_toString fp)"
  from Nil obtain r s' where f: "fetch s req = (Some r, s')" "ok r" "json r = Some []"
    by (auto simp: req_def split: prod.splits option.splits)
  have "renderGetPaged_loop fetch token path fp objs s log
      = Some (Inr objs, s', log @ [(req, Some r)])"
    by (subst renderGetPaged_loop.simps) (simp add: Let_def f req_def[symmetric])
  then show ?case by simp
next
  case (Cons p pages)
  define req where "req = getRequest token path (searchParams_toString fp)"
  from Cons.prems obtain r s' where f: "fetch s req = (Some r, s')" "ok r" "json r = Some p" "p \<noteq> []"
    and rest: "answersWith fetch token path (setProp fp ''cursor'' (cursor (last p))) s' pages"
    by (auto simp: req_def split: prod.splits option.splits)
  from Cons.IH[OF rest, of "objs @ p" "log @ [(req, Some r)]"]
  obtain s'' log' where
    l: "renderGetPaged_loop fetch token path (setProp fp ''cursor'' (cursor (last p))) (objs @ p)
          s' (log @ [(req, Some r)]) = Some (Inr ((objs @ p) @ concat pages), s'', log')"
    and n: "length log' = length (log @ [(req, Some r)]) + length pages + 1" by blast
  have "renderGetPaged_loop fetch token path fp objs s log
      = renderGetPaged_loop fetch token path (setProp fp ''cursor'' (cursor (last p))) (objs @ p)
          s' (log @ [(req, Some r)])"
    by (subst renderGetPaged_loop.simps) (simp add: Let_def f req_def[symmetric])
  with l n show ?case by simp
qed

lemma loop_failsAfter:
  assumes "failsAfter fetch token path fp s pages r"
  shows "\<exists>s' log'. renderGetPaged_loop fetch token path fp objs s log
            = Some (Inl (Error (errorMessage ''Unable to fetch data from render '' (statusText r)
                      (url (fst (last log'))) token (bodyText r))), s', log')
          \<and> length log' = length log + length pages + 1
          \<and> snd (last log') = Some r
          \<and> (\<exists>qs. url (fst (last log')) = RENDER_API @ ''/'' @ path @ ''?'' @ qs)"
  using assms
proof (induction pages arbitrary: fp objs s log)
  case Nil
  define req where "req = getRequest token path (searchParams_toString fp)"
  from Nil obtain s' where f: "fetch s req = (Some r, s')" "\<not> ok r"
    by (auto simp: req_def split: prod.splits option.splits)
  have run: "renderGetPaged_loop fetch token path fp objs s log
      = Some (Inl (Error (errorMessage ''Unable to fetch data from render '' (statusText r)
                (url req) token (bodyText r))), s', log @ [(req, Some r)])"
    by (subst renderGetPaged_loop.simps) (simp add: Let_def f req_def[symmetric])
  have u: "url req = RENDER_API @ ''/'' @ path @ ''?'' @ searchParams_toString fp"
    by (simp add: req_def getRequest_def)
  show ?case
    by (rule exI[of _ s'], rule exI[of _ "log @ [(req, Some r)]"]) (simp add: run u)
next
  case (Cons p pages)
  define req where "req = getRequest token path (searchParams_toString fp)"
  from Cons.prems obtain r' s' where
    f: "fetch s req = (Some r', s')" "ok r'" "json r' = Some p" "p \<noteq> []"
    and rest: "failsAfter fetch token path (setProp fp ''cursor'' (cursor (last p))) s' pages r"
    by (auto simp: req_def split: prod.splits option.splits)
  from Cons.IH[OF rest, of "objs @ p" "log @ [(req, Some r')]"]
  obtain s'' log' where
    l: "renderGetPaged_loop fetch token path (setProp fp ''cursor'' (cursor (last p))) (objs @ p)
          s' (log @ [(req, Some r')])
        = Some (Inl (Error (errorMessage ''Unable to fetch data from render '' (statusText r)
                  (url (fst (last log'))) token (bodyText r))), s'', log')"
    and n: "length log' = length (log @ [(req, Some r')]) + length pages + 1"
    and e: "snd (last log') = Some r"
    and q: "\<exists>qs. url (fst (last log')) = RENDER_API @ ''/'' @ path @ ''?'' @ qs" by blast
  have "renderGetPaged_loop fetch token path fp objs s log
      = renderGetPaged_loop fetch token path (setProp fp ''cursor'' (cursor (last p))) (objs @ p)
          s' (log @ [(req, Some r')])"
    by (subst renderGetPaged_loop.simps) (simp add: Let_def f req_def[symmetric])
  with l n e q show ?case by simp
qed

lemma urlencode_cursor: "urlencode ''cursor'' = ''cursor''"
  by (simp add: urlencode_def urlencodeChar_def unreserved_def)

lemma occurrencesOf_cursor_setProp:
  assumes "distinct (map fst fp)"
  shows "occurrencesOf ''cursor'' (searchParams_toString (setProp fp ''cursor'' c))
         = [''cursor='' @ urlencode c]"
proof -
  have d: "distinct (map fst (setProp fp ''cursor'' c))" using assms by (rule distinct_setProp)
  have "map_of (setProp fp ''cursor'' c) ''cursor'' = Some c" by (simp add: map_of_setProp)
  with d have "(''cursor'', c) \<in> set (setProp fp ''cursor'' c)" by simp
  with d have "filter (\<lambda>p. fst p = ''cursor'') (setProp fp ''cursor'' c) = [(''cursor'', c)]"
    by (rule filter_key_distinct)
  then show ?thesis by (simp add: occurrencesOf_toString serializePair_def urlencode_cursor)
qed

lemma chain_cursor:
  assumes "chain token path fp (pre @ x # y # post)" "distinct (map fst fp)"
  shows "\<exists>qs. url (fst y) = RENDER_API @ ''/'' @ path @ ''?'' @ qs \<and>
           occurrencesOf ''cursor'' qs = [''cursor='' @ urlencode (cursor (last (pageOf x)))]"
  using assms
proof (induction pre arbitrary: fp)
  case Nil
  then have "fst y = getRequest token path
      (searchParams_toString (setProp fp ''cursor'' (cursor (last (pageOf x)))))" by simp
  then have "url (fst y) = RENDER_API @ ''/'' @ path @ ''?'' @
      searchParams_toString (setProp fp ''cursor'' (cursor (last (pageOf x))))"
    by (simp add: getRequest_def)
  with occurrencesOf_cursor_setProp[OF Nil.prems(2)] show ?case by blast
next
  case (Cons z pre)
  from Cons.prems have "chain token path (setProp fp ''cursor'' (cursor (last (pageOf z))))
      (pre @ x # y # post)" by simp
  moreover from Cons.prems(2) have "distinct (map fst (setProp fp ''cursor'' (cursor (last (pageOf z)))))"
    by (rule distinct_setProp)
  ultimately show ?case by (rule Cons.IH)
qed

lemma distinct_definedEntries:
  "distinct (map fst params) \<Longrightarrow> distinct (map fst (definedEntries params))"
proof -
  assume d: "distinct (map fst params)"
  have "map fst (definedEntries params) = map fst (filter (\<lambda>(key, v). v \<noteq> None) params)"
    by (induction params) (auto simp: definedEntries_def split: option.splits)
  with d show ?thesis by (simp add: distinct_map_filter)
qed

lemma distinct_filterParamsPaged:
  "distinct (map fst params) \<Longrightarrow> distinct (map fst (filterParamsPaged (defaultLimitPaged params)))"
  by (simp add: filterParamsPaged_distinct distinct_defaultLimitPaged distinct_definedEntries
      distinct_map_filter)

lemma renderGetPaged_trace:
  assumes "snd (renderGetPaged fetch s token path params) = Some y"
  shows "traceOK token path (filterParamsPaged (defaultLimitPaged params)) [] [] y"
  using assms by (simp add: renderGetPaged_def Let_def loop_trace)

lemma filterParamsPaged_empty: "filterParamsPaged (defaultLimitPaged []) = [(''limit'', ''100'')]"
  by (simp add: filterParamsPaged_def defaultLimitPaged_def definedEntries_def assignProp_def)

lemma toString_limit: "searchParams_toString [(''limit'', ''100'')] = ''limit=100''"
  by (simp add: searchParams_toString_def serializePair_def urlencode_def urlencodeChar_def unreserved_def)

lemma toString_limit_cursor:
  "searchParams_toString [(''limit'', ''100''), (''cursor'', c)] = ''limit=100&cursor='' @ urlencode c"
  using toString_limit by (simp add: searchParams_toString_def serializePair_def urlencode_cursor)

text \<open>
  Claim C3. A server that answers the successive requests of \<^verbatim>\<open>renderGetPaged\<close> with pages
  of sizes 2, 2 and 0 makes it return the four elements of the first two pages in
  order, after exactly three requests; the query of the second request ends in the
  cursor of the second element of the first page, that of the third in the cursor of
  the second element of the second page. In general, in every run that returns, for
  any two requests in a row the page received for the first is not empty, and the
  query string of the second has exactly one \<^verbatim>\<open>cursor\<close> occurrence, whose value is the
  cursor of the last element of that page.
\<close>

theorem renderGetPaged_follows_cursor:
  "renderGetPaged scripted [okPage [a1, a2], okPage [b1, b2], okPage []] token path []
     = ([(''limit'', Some ''100'')],
        Some (Inr [a1, a2, b1, b2], [],
          [(getRequest token path ''limit=100'', Some (okPage [a1, a2])),
           (getRequest token path (''limit=100&cursor='' @ urlencode (cursor a2)), Some (okPage [b1, b2])),
           (getRequest token path (''limit=100&cursor='' @ urlencode (cursor b2)), Some (okPage []))]))
   \<and> (snd (renderGetPaged fetch s token path params) = Some (out, s', pre @ x # y # post)
        \<and> distinct (map fst params) \<longrightarrow>
        pageOf x \<noteq> [] \<and>
        (\<exists>qs. url (fst y) = RENDER_API @ ''/'' @ path @ ''?'' @ qs \<and>
           occurrencesOf ''cursor'' qs = [''cursor='' @ urlencode (cursor (last (pageOf x)))]))"
proof
  show "renderGetPaged scripted [okPage [a1, a2], okPage [b1, b2], okPage []] token path []
     = ([(''limit'', Some ''100'')],
        Some (Inr [a1, a2, b1, b2], [],
          [(getRequest token path ''limit=100'', Some (okPage [a1, a2])),
           (getRequest token path (''limit=100&cursor='' @ urlencode (cursor a2)), Some (okPage [b1, b2])),
           (getRequest token path (''limit=100&cursor='' @ urlencode (cursor b2)), Some (okPage []))]))"
    unfolding renderGetPaged_def Let_def filterParamsPaged_empty
    apply (subst renderGetPaged_loop.simps)
    apply (simp add: okPage_def toString_limit)
    apply (subst renderGetPaged_loop.simps)
    apply (simp add: okPage_def toString_limit_cursor)
    apply (subst renderGetPaged_loop.simps)
    apply (simp add: okPage_def toString_limit_cursor defaultLimitPaged_def)
    done
next
  show "snd (renderGetPaged fetch s token path params) = Some (out, s', pre @ x # y # post)
        \<and> distinct (map fst params) \<longrightarrow>
        pageOf x \<noteq> [] \<and>
        (\<exists>qs. url (fst y) = RENDER_API @ ''/'' @ path @ ''?'' @ qs \<and>
           occurrencesOf ''cursor'' qs = [''cursor='' @ urlencode (cursor (last (pageOf x)))])"
  proof (intro impI, elim conjE)
    assume run: "snd (renderGetPaged fetch s token path params) = Some (out, s', pre @ x # y # post)"
      and d: "distinct (map fst params)"
    let ?fp = "filterParamsPaged (defaultLimitPaged params)"
    from renderGetPaged_trace[OF run] obtain mid e where
      l: "pre @ x # y # post = mid @ [e]" and fu: "list_all fullPage mid"
      and ch: "chain token path ?fp (mid @ [e])"
      unfolding traceOK_def by auto
    from ch l have c: "chain token path ?fp (pre @ x # y # post)" by simp
    have "x \<in> set mid"
    proof -
      from l have "butlast (pre @ x # y # post) = mid" by (simp add: butlast_append)
      then have "mid = pre @ x # butlast (y # post)" by (simp add: butlast_append)
      then show ?thesis by simp
    qed
    with fu have 1: "pageOf x \<noteq> []" by (simp add: list_all_iff fullPage_def)
    from chain_cursor[OF c distinct_filterParamsPaged[OF d]] 1
    show "pageOf x \<noteq> [] \<and>
        (\<exists>qs. url (fst y) = RENDER_API @ ''/'' @ path @ ''?'' @ qs \<and>
           occurrencesOf ''cursor'' qs = [''cursor='' @ urlencode (cursor (last (pageOf x)))])"
      by blast
  qed
qed


text \<open>The theorem at pages with the cursors \<open>c1\<close>, \<open>c2\<close> and \<open>c3\<close>, \<open>c4\<close>.\<close>

theorem renderGetPaged_follows_cursor_witness:
  "snd (renderGetPaged scripted
          [okPage [\<lparr>cursor = ''c1''\<rparr>, \<lparr>cursor = ''c2''\<rparr>],
           okPage [\<lparr>cursor = ''c3''\<rparr>, \<lparr>cursor = ''c4''\<rparr>], okPage []]
          ''tok'' ''services'' [])
     = Some (Inr [\<lparr>cursor = ''c1''\<rparr>, \<lparr>cursor = ''c2''\<rparr>, \<lparr>cursor = ''c3''\<rparr>, \<lparr>cursor = ''c4''\<rparr>], [],
         [] @ (getRequest ''tok'' ''services'' ''limit=100'',
                Some (okPage [\<lparr>cursor = ''c1''\<rparr>, \<lparr>cursor = ''c2''\<rparr>]))
            # (getRequest ''tok'' ''services'' (''limit=100&cursor='' @ urlencode ''c2''),
                Some (okPage [\<lparr>cursor = ''c3''\<rparr>, \<lparr>cursor = ''c4''\<rparr>]))
            # [(getRequest ''tok'' ''services'' (''limit=100&cursor='' @ urlencode ''c4''),
                Some (okPage []))])
   \<and> distinct (map fst ([] :: (string \<times> string option) list))
   \<and> pageOf (getRequest ''tok'' ''services'' ''limit=100'',
                Some (okPage [\<lparr>cursor = ''c1''\<rparr>, \<lparr>cursor = ''c2''\<rparr>])) \<noteq> []
   \<and> (\<exists>qs. url (fst (getRequest ''tok'' ''services'' (''limit=100&cursor='' @ urlencode ''c2''),
                Some (okPage [\<lparr>cursor = ''c3''\<rparr>, \<lparr>cursor = ''c4''\<rparr>])))
              = RENDER_API @ ''/'' @ ''services'' @ ''?'' @ qs \<and>
           occurrencesOf ''cursor'' qs = [''cursor=c2''])"
proof -
  let ?X = "(getRequest ''tok'' ''services'' ''limit=100'',
                Some (okPage [\<lparr>cursor = ''c1''\<rparr>, \<lparr>cursor = ''c2''\<rparr>]))"
  let ?Y = "(getRequest ''tok'' ''services'' (''limit=100&cursor='' @ urlencode ''c2''),
                Some (okPage [\<lparr>cursor = ''c3''\<rparr>, \<lparr>cursor = ''c4''\<rparr>]))"
  let ?Z = "(getRequest ''tok'' ''services'' (''limit=100&cursor='' @ urlencode ''c4''),
                Some (okPage ([] :: cursored list)))"
  note t = renderGetPaged_follows_cursor[where ?a1.0 = "\<lparr>cursor = ''c1''\<rparr>" and ?a2.0 = "\<lparr>cursor = ''c2''\<rparr>"
      and ?b1.0 = "\<lparr>cursor = ''c3''\<rparr>" and ?b2.0 = "\<lparr>cursor = ''c4''\<rparr>" and token = "''tok''"
      and path = "''services''" and fetch = scripted
      and s = "[okPage [\<lparr>cursor = ''c1''\<rparr>, \<lparr>cursor = ''c2''\<rparr>],
           okPage [\<lparr>cursor = ''c3''\<rparr>, \<lparr>cursor = ''c4''\<rparr>], okPage []]"
      and params = "[]" and pre = "[]" and x = ?X and y = ?Y and post = "[?Z]"
      and out = "Inr [\<lparr>cursor = ''c1''\<rparr>, \<lparr>cursor = ''c2''\<rparr>, \<lparr>cursor = ''c3''\<rparr>, \<lparr>cursor = ''c4''\<rparr>]"
      and s' = "[]"]
  have run: "snd (renderGetPaged scripted
          [okPage [\<lparr>cursor = ''c1''\<rparr>, \<lparr>cursor = ''c2''\<rparr>],
           okPage [\<lparr>cursor = ''c3''\<rparr>, \<lparr>cursor = ''c4''\<rparr>], okPage []]
          ''tok'' ''services'' [])
     = Some (Inr [\<lparr>cursor = ''c1''\<rparr>, \<lparr>cursor = ''c2''\<rparr>, \<lparr>cursor = ''c3''\<rparr>, \<lparr>cursor = ''c4''\<rparr>], [],
         [] @ ?X # ?Y # [?Z])"
    using t[THEN conjunct1] by simp
  have d: "distinct (map fst ([] :: (string \<times> string option) list))" by simp
  have c2: "urlencode ''c2'' = ''c2''" by (simp add: urlencode_def urlencodeChar_def unreserved_def)
  from t[THEN conjunct2, THEN mp, OF conjI[OF run d]]
  have "pageOf ?X \<noteq> [] \<and>
    (\<exists>qs. url (fst ?Y) = RENDER_API @ ''/'' @ ''services'' @ ''?'' @ qs \<and>
           occurrencesOf ''cursor'' qs = [''cursor=c2''])"
    by (simp add: pageOf_def okPage_def c2)
  with run d show ?thesis by blast
qed

text \<open>
  Claim C4. The loop of \<^verbatim>\<open>renderGetPaged\<close> has no cap on its iterations. For every list of
  non-empty pages, however long, a server that answers with these pages and then an
  empty one makes the call return all their elements after one request more than there
  are pages: a scripted server, and any server that answers the requests of the call so. Against a server that answers every request with an ok, non-empty page the
  call never returns. A call that returns a list has received non-empty pages only,
  followed by one ok response with an empty page, which was its last request. And an ok
  response with zero elements ends the loop at once, with the elements collected so
  far.
\<close>

theorem renderGetPaged_unbounded:
  "((\<forall>p\<in>set pages. p \<noteq> []) \<longrightarrow>
      (\<exists>log. renderGetPaged scripted (map okPage pages @ [okPage []]) token path params
               = (defaultLimitPaged params, Some (Inr (concat pages), [], log))
             \<and> length log = length pages + 1))
   \<and> ((\<forall>s req. \<exists>r p s'. fetchB s req = (Some r, s') \<and> ok r \<and> json r = Some p \<and> p \<noteq> []) \<longrightarrow>
        snd (renderGetPaged fetchB sB token path params) = None)
   \<and> (snd (renderGetPaged fetchC sC token path params) = Some (Inr objs, sC', logC) \<longrightarrow>
        (\<exists>mid req r. logC = mid @ [(req, Some r)] \<and> list_all fullPage mid \<and>
           ok r \<and> json r = Some [] \<and> objs = concat (map pageOf mid)))
   \<and> (fetchD sD (getRequest token path (searchParams_toString fp)) = (Some r0, sD') \<and>
        ok r0 \<and> json r0 = Some [] \<longrightarrow>
        renderGetPaged_loop fetchD token path fp objs0 sD log0
          = Some (Inr objs0, sD',
                  log0 @ [(getRequest token path (searchParams_toString fp), Some r0)]))
   \<and> (answersWith fetchE token path (filterParamsPaged (defaultLimitPaged paramsE)) sE pagesE \<longrightarrow>
        (\<exists>sE' logE. snd (renderGetPaged fetchE sE token path paramsE)
                        = Some (Inr (concat pagesE), sE', logE)
                    \<and> length logE = length pagesE + 1))"
proof (intro conjI impI)
  assume "\<forall>p\<in>set pages. p \<noteq> []"
  from loop_scripted[OF this, of token path "filterParamsPaged (defaultLimitPaged params)" "[]" "[]" "[]"]
  show "\<exists>log. renderGetPaged scripted (map okPage pages @ [okPage []]) token path params
               = (defaultLimitPaged params, Some (Inr (concat pages), [], log))
             \<and> length log = length pages + 1"
    by (simp add: renderGetPaged_def Let_def)
next
  assume "\<forall>s req. \<exists>r p s'. fetchB s req = (Some r, s') \<and> ok r \<and> json r = Some p \<and> p \<noteq> []"
  then have "\<And>s req. \<exists>r p s'. fetchB s req = (Some r, s') \<and> ok r \<and> json r = Some p \<and> p \<noteq> []"
    by blast
  from loop_diverges[of fetchB, OF this]
  show "snd (renderGetPaged fetchB sB token path params) = None"
    by (simp add: renderGetPaged_def Let_def)
next
  assume run: "snd (renderGetPaged fetchC sC token path params) = Some (Inr objs, sC', logC)"
  from renderGetPaged_trace[OF run] obtain mid e where
    l: "logC = mid @ [e]" and fu: "list_all fullPage mid"
    and fin: "finalOutcome token (concat (map pageOf mid)) e = Some (Inr objs)"
    unfolding traceOK_def by auto
  obtain req res where e: "e = (req, res)" by (cases e)
  from fin e obtain r where r: "res = Some r" "ok r" "json r = Some []"
      "objs = concat (map pageOf mid)"
    by (auto simp: finalOutcome_def split: option.splits if_splits)
  with l e fu show "\<exists>mid req r. logC = mid @ [(req, Some r)] \<and> list_all fullPage mid \<and>
           ok r \<and> json r = Some [] \<and> objs = concat (map pageOf mid)"
    by blast
next
  assume "fetchD sD (getRequest token path (searchParams_toString fp)) = (Some r0, sD') \<and>
        ok r0 \<and> json r0 = Some []"
  then show "renderGetPaged_loop fetchD token path fp objs0 sD log0
          = Some (Inr objs0, sD',
                  log0 @ [(getRequest token path (searchParams_toString fp), Some r0)])"
    by (subst renderGetPaged_loop.simps) (simp add: Let_def)
next
  assume "answersWith fetchE token path (filterParamsPaged (defaultLimitPaged paramsE)) sE pagesE"
  from loop_answersWith[OF this, of "[]" "[]"]
  show "\<exists>sE' logE. snd (renderGetPaged fetchE sE token path paramsE)
                        = Some (Inr (concat pagesE), sE', logE)
                    \<and> length logE = length pagesE + 1"
    by (simp add: renderGetPaged_def Let_def)
qed


text \<open>
  The theorem at two pages of one element, at a server that always answers with one
  element, and at a server that answers with one element and then with none.
\<close>

theorem renderGetPaged_unbounded_witness:
  "([\<lparr>cursor = ''c1''\<rparr>] \<noteq> [] \<and> [\<lparr>cursor = ''c2''\<rparr>] \<noteq> [])
   \<and> (\<exists>log. renderGetPaged scripted
               (map okPage [[\<lparr>cursor = ''c1''\<rparr>], [\<lparr>cursor = ''c2''\<rparr>]] @ [okPage []]) ''tok'' ''services'' []
               = (defaultLimitPaged [], Some (Inr [\<lparr>cursor = ''c1''\<rparr>, \<lparr>cursor = ''c2''\<rparr>], [], log))
             \<and> length log = 3)
   \<and> (\<forall>s req. \<exists>r p s'. (\<lambda>(s :: unit) (req :: request). (Some (okPage [\<lparr>cursor = ''c''\<rparr>]), s)) s req = (Some r, s')
          \<and> ok r \<and> json r = Some p \<and> p \<noteq> [])
   \<and> snd (renderGetPaged (\<lambda>(s :: unit) (req :: request). (Some (okPage [\<lparr>cursor = ''c''\<rparr>]), s)) ()
            ''tok'' ''services'' []) = None
   \<and> snd (renderGetPaged scripted [okPage [\<lparr>cursor = ''c1''\<rparr>], okPage []] ''tok'' ''services'' [])
       = Some (Inr [\<lparr>cursor = ''c1''\<rparr>], [],
           [(getRequest ''tok'' ''services'' ''limit=100'', Some (okPage [\<lparr>cursor = ''c1''\<rparr>])),
            (getRequest ''tok'' ''services'' ''limit=100&cursor=c1'', Some (okPage []))])
   \<and> (\<exists>mid req r.
         [(getRequest ''tok'' ''services'' ''limit=100'', Some (okPage [\<lparr>cursor = ''c1''\<rparr>])),
          (getRequest ''tok'' ''services'' ''limit=100&cursor=c1'', Some (okPage []))]
          = mid @ [(req, Some r)] \<and> list_all fullPage mid \<and>
         ok r \<and> json r = Some [] \<and> [\<lparr>cursor = ''c1''\<rparr>] = concat (map pageOf mid))
   \<and> scripted [okPage ([] :: cursored list)]
         (getRequest ''tok'' ''services'' (searchParams_toString [(''limit'', ''100'')]))
       = (Some (okPage []), [])
   \<and> ok (okPage ([] :: cursored list)) \<and> json (okPage ([] :: cursored list)) = Some []
   \<and> renderGetPaged_loop scripted ''tok'' ''services'' [(''limit'', ''100'')] [] [okPage ([] :: cursored list)] []
       = Some (Inr [], [],
               [] @ [(getRequest ''tok'' ''services'' (searchParams_toString [(''limit'', ''100'')]),
                      Some (okPage []))])
   \<and> answersWith scripted ''tok'' ''services'' (filterParamsPaged (defaultLimitPaged []))
         [okPage [\<lparr>cursor = ''c1''\<rparr>], okPage []] [[\<lparr>cursor = ''c1''\<rparr>]]
   \<and> (\<exists>sE' logE. snd (renderGetPaged scripted [okPage [\<lparr>cursor = ''c1''\<rparr>], okPage []]
                          ''tok'' ''services'' [])
                        = Some (Inr (concat [[\<lparr>cursor = ''c1''\<rparr>]]), sE', logE)
                    \<and> length logE = length [[\<lparr>cursor = ''c1''\<rparr>]] + 1)"
proof -
  let ?fB = "\<lambda>(s :: unit) (req :: request). (Some (okPage [\<lparr>cursor = ''c''\<rparr>]), s)"
  let ?logC = "[(getRequest ''tok'' ''services'' ''limit=100'', Some (okPage [\<lparr>cursor = ''c1''\<rparr>])),
            (getRequest ''tok'' ''services'' ''limit=100&cursor=c1'', Some (okPage ([] :: cursored list)))]"
  note t = renderGetPaged_unbounded[where pages = "[[\<lparr>cursor = ''c1''\<rparr>], [\<lparr>cursor = ''c2''\<rparr>]]"
      and token = "''tok''" and path = "''services''" and params = "[]"
      and fetchB = ?fB and sB = "()"
      and fetchC = scripted and sC = "[okPage [\<lparr>cursor = ''c1''\<rparr>], okPage []]"
      and objs = "[\<lparr>cursor = ''c1''\<rparr>]" and sC' = "[]" and logC = ?logC
      and fetchD = scripted and sD = "[okPage ([] :: cursored list)]" and fp = "[(''limit'', ''100'')]"
      and ?r0.0 = "okPage []" and sD' = "[]" and ?objs0.0 = "[]" and ?log0.0 = "[]"
      and fetchE = scripted and sE = "[okPage [\<lparr>cursor = ''c1''\<rparr>], okPage []]"
      and paramsE = "[]" and pagesE = "[[\<lparr>cursor = ''c1''\<rparr>]]"]
  have hA: "\<forall>p\<in>set [[\<lparr>cursor = ''c1''\<rparr>], [\<lparr>cursor = ''c2''\<rparr>]]. p \<noteq> []" by simp
  have hB: "\<forall>s req. \<exists>r p s'. ?fB s req = (Some r, s') \<and> ok r \<and> json r = Some p \<and> p \<noteq> []"
    by (simp add: okPage_def)
  have c1: "urlencode ''c1'' = ''c1''" by (simp add: urlencode_def urlencodeChar_def unreserved_def)
  have hC: "snd (renderGetPaged scripted [okPage [\<lparr>cursor = ''c1''\<rparr>], okPage []] ''tok'' ''services'' [])
       = Some (Inr [\<lparr>cursor = ''c1''\<rparr>], [], ?logC)"
    unfolding renderGetPaged_def Let_def filterParamsPaged_empty
    apply (subst renderGetPaged_loop.simps)
    apply (simp add: okPage_def toString_limit)
    apply (subst renderGetPaged_loop.simps)
    apply (simp add: okPage_def toString_limit_cursor c1)
    done
  have hD: "scripted [okPage ([] :: cursored list)]
         (getRequest ''tok'' ''services'' (searchParams_toString [(''limit'', ''100'')]))
       = (Some (okPage []), []) \<and> ok (okPage ([] :: cursored list))
       \<and> json (okPage ([] :: cursored list)) = Some []"
    by (simp add: okPage_def)
  from t[THEN conjunct1, THEN mp, OF hA]
  have A: "\<exists>log. renderGetPaged scripted
               (map okPage [[\<lparr>cursor = ''c1''\<rparr>], [\<lparr>cursor = ''c2''\<rparr>]] @ [okPage []]) ''tok'' ''services'' []
               = (defaultLimitPaged [], Some (Inr [\<lparr>cursor = ''c1''\<rparr>, \<lparr>cursor = ''c2''\<rparr>], [], log))
             \<and> length log = 3" by (simp add: numeral_3_eq_3)
  note B = t[THEN conjunct2, THEN conjunct1, THEN mp, OF hB]
  note C = t[THEN conjunct2, THEN conjunct2, THEN conjunct1, THEN mp, OF hC]
  note D = t[THEN conjunct2, THEN conjunct2, THEN conjunct2, THEN conjunct1, THEN mp, OF hD]
  have hE: "answersWith scripted ''tok'' ''services'' (filterParamsPaged (defaultLimitPaged []))
         [okPage [\<lparr>cursor = ''c1''\<rparr>], okPage []] [[\<lparr>cursor = ''c1''\<rparr>]]"
    by (simp add: okPage_def)
  note E = t[THEN conjunct2, THEN conjunct2, THEN conjunct2, THEN conjunct2, THEN mp, OF hE]
  have hA': "[\<lparr>cursor = ''c1''\<rparr>] \<noteq> [] \<and> [\<lparr>cursor = ''c2''\<rparr>] \<noteq> []" by simp
  from hA' A hB B hC C hD D hE E show ?thesis by blast
qed


subsection \<open>The error on a response that is not ok\<close>

lemma str_includes_mid: "str_includes (a @ p @ b) p"
  unfolding str_includes_iff by blast

lemma errorMessage_includes:
  "str_includes (errorMessage intro status u token errorBody) status"
  "str_includes (errorMessage intro status u token errorBody) u"
  "str_includes (errorMessage intro status u token errorBody) (''*****'' @ slice_last6 token)"
  "str_includes (errorMessage intro status u token errorBody) errorBody"
proof -
  show "str_includes (errorMessage intro status u token errorBody) status"
    unfolding errorMessage_def by (rule str_includes_mid)
  have "errorMessage intro status u token errorBody =
    (intro @ status @ newline @ ''url: '') @ u @
      (newline @ ''api key: *****'' @ slice_last6 token @ newline @ errorBody)"
    by (simp add: errorMessage_def)
  then show "str_includes (errorMessage intro status u token errorBody) u"
    by (simp only: str_includes_mid)
  have "errorMessage intro status u token errorBody =
    (intro @ status @ newline @ ''url: '' @ u @ newline @ ''api key: '') @
      (''*****'' @ slice_last6 token) @ (newline @ errorBody)"
    by (simp add: errorMessage_def)
  then show "str_includes (errorMessage intro status u token errorBody) (''*****'' @ slice_last6 token)"
    by (simp only: str_includes_mid)
  have "errorMessage intro status u token errorBody =
    (intro @ status @ newline @ ''url: '' @ u @ newline @ ''api key: *****'' @ slice_last6 token
       @ newline) @ errorBody @ []"
    by (simp add: errorMessage_def)
  then show "str_includes (errorMessage intro status u token errorBody) errorBody"
    by (simp only: str_includes_mid)
qed

lemma slice_last6_idem: "slice_last6 (slice_last6 s) = slice_last6 s"
  by (simp add: slice_last6_def)

lemma fullPage_ok: "fullPage (req, Some r) \<Longrightarrow> ok r"
  by (auto simp: fullPage_def pageOf_def split: if_splits)

lemma str_includes_delim:
  assumes "d \<notin> set p"
  shows "str_includes (a @ d # b) p \<longleftrightarrow> str_includes a p \<or> str_includes b p"
proof
  assume "str_includes (a @ d # b) p"
  then obtain x y where e: "a @ d # b = x @ p @ y" unfolding str_includes_iff by blast
  then consider us where "a = x @ us" "us @ d # b = p @ y"
    | us where "a @ us = x" "d # b = us @ p @ y"
    by (auto simp: append_eq_append_conv2)
  then show "str_includes a p \<or> str_includes b p"
  proof cases
    case 1
    from 1(2) consider vs where "us = p @ vs" "vs @ d # b = y"
      | vs where "us @ vs = p" "d # b = vs @ y" "vs \<noteq> []"
      by (auto simp: append_eq_append_conv2) (metis append_Nil2)
    then show ?thesis
    proof cases
      case 1
      with \<open>a = x @ us\<close> have "a = x @ p @ vs" by simp
      then show ?thesis unfolding str_includes_iff by blast
    next
      case 2
      then have "d \<in> set vs" by (cases vs) auto
      with 2(1) have "d \<in> set p" by auto
      with assms show ?thesis by simp
    qed
  next
    case 2
    show ?thesis
    proof (cases us)
      case Nil
      with 2(2) have "d # b = p @ y" by simp
      with assms have "p = []" by (cases p) auto
      then have "a = a @ p @ []" by simp
      then show ?thesis unfolding str_includes_iff by blast
    next
      case (Cons u us')
      with 2(2) have "b = us' @ p @ y" by simp
      then show ?thesis unfolding str_includes_iff by blast
    qed
  qed
next
  assume "str_includes a p \<or> str_includes b p"
  then show "str_includes (a @ d # b) p"
  proof
    assume "str_includes a p"
    then obtain x y where "a = x @ p @ y" unfolding str_includes_iff by blast
    then have "a @ d # b = x @ p @ (y @ d # b)" by simp
    then show ?thesis unfolding str_includes_iff by blast
  next
    assume "str_includes b p"
    then obtain x y where "b = x @ p @ y" unfolding str_includes_iff by blast
    then have "a @ d # b = (a @ d # x) @ p @ y" by simp
    then show ?thesis unfolding str_includes_iff by blast
  qed
qed

lemma supersecret_in_message:
  assumes "\<not> str_includes i ''supersecret''"
  shows "str_includes (errorMessage (i @ '' '') status u ''supersecrettoken123456'' errorBody)
           ''supersecret''
   \<longleftrightarrow> str_includes status ''supersecret'' \<or> str_includes u ''supersecret''
       \<or> str_includes errorBody ''supersecret''"
proof -
  let ?p = "''supersecret''"
  have nl: "CHR 0x0A \<notin> set ?p" and sp: "CHR '' '' \<notin> set ?p" by simp_all
  have m: "errorMessage (i @ '' '') status u ''supersecrettoken123456'' errorBody
     = (i @ CHR '' '' # status) @ CHR 0x0A #
       ((''url:'' @ CHR '' '' # u) @ CHR 0x0A # (''api key: *****123456'' @ CHR 0x0A # errorBody))"
    by (simp add: errorMessage_def newline_def slice_last6_def)
  have f2: "\<not> str_includes ''url:'' ?p" by simp
  have f3: "\<not> str_includes ''api key: *****123456'' ?p" by simp
  show ?thesis
    unfolding m
    by (simp only: str_includes_delim[OF nl] str_includes_delim[OF sp] assms f2 f3 simp_thms)
qed

text \<open>
  Claim C1, as amended. When the response to its request is not ok, \<^verbatim>\<open>renderGet\<close> and
  \<^verbatim>\<open>renderPost\<close>, called with a token that their headers take, throw an error whose
  message is built from the status text, the fully-qualified URL of the request, the
  response body and the token. So does \<^verbatim>\<open>renderGetPaged\<close>, at whichever request of its
  run: a response that is not ok ends the loop in that iteration with this error, the
  call returns it when the server has answered any number of non-empty pages and then
  a response that is not ok, and in a run that has returned a response that is not ok
  is the last one. The message contains the status text, the URL, the body and five
  asterisks followed by the last six characters of the token. The token enters the
  message through its last six characters only: the message is the one of the token
  cut to them. For the token \<^verbatim>\<open>supersecrettoken123456\<close> the message contains
  \<^verbatim>\<open>*****123456\<close>, and it contains \<^verbatim>\<open>supersecret\<close> exactly when the status text, the URL
  or the body does.
\<close>

theorem request_error_message:
  "(validToken token \<and>
      fetch s (getRequest token path (queryString (defaultLimit params))) = (Some r, s') \<and> \<not> ok r \<longrightarrow>
      snd (snd (renderGet fetch s token path params))
        = Inl (Error (errorMessage ''Unable to fetch data from render '' (statusText r)
                 (RENDER_API @ ''/'' @ path @ ''?'' @ queryString (defaultLimit params))
                 token (bodyText r))))
   \<and> (validToken token \<and>
      fetchP sP (postRequest token path (stringify b)) = (Some rP, sP') \<and> \<not> ok rP \<longrightarrow>
      snd (renderPost stringify fetchP sP token path b)
        = Inl (Error (errorMessage ''Unable to fetch post data from render '' (statusText rP)
                 (RENDER_API @ ''/'' @ path) token (bodyText rP))))
   \<and> (snd (renderGetPaged fetchG sG token path paramsG) = Some (out, sG', log) \<and>
        (req, Some rG) \<in> set log \<and> \<not> ok rG \<longrightarrow>
      out = Inl (Error (errorMessage ''Unable to fetch data from render '' (statusText rG)
                 (url req) token (bodyText rG)))
      \<and> last log = (req, Some rG)
      \<and> (\<exists>qs. url req = RENDER_API @ ''/'' @ path @ ''?'' @ qs))
   \<and> (str_includes (errorMessage intro status u token errorBody) status
      \<and> str_includes (errorMessage intro status u token errorBody) u
      \<and> str_includes (errorMessage intro status u token errorBody) (''*****'' @ slice_last6 token)
      \<and> str_includes (errorMessage intro status u token errorBody) errorBody)
   \<and> errorMessage intro status u token errorBody
        = errorMessage intro status u (slice_last6 token) errorBody
   \<and> str_includes (errorMessage intro status u ''supersecrettoken123456'' errorBody) ''*****123456''
   \<and> (str_includes (errorMessage ''Unable to fetch data from render '' status u
           ''supersecrettoken123456'' errorBody) ''supersecret''
        \<longleftrightarrow> str_includes status ''supersecret'' \<or> str_includes u ''supersecret''
            \<or> str_includes errorBody ''supersecret'')
   \<and> (str_includes (errorMessage ''Unable to fetch post data from render '' status u
           ''supersecrettoken123456'' errorBody) ''supersecret''
        \<longleftrightarrow> str_includes status ''supersecret'' \<or> str_includes u ''supersecret''
            \<or> str_includes errorBody ''supersecret'')
   \<and> (fetchL sL (getRequest token path (searchParams_toString fp)) = (Some rL, sL') \<and> \<not> ok rL \<longrightarrow>
      renderGetPaged_loop fetchL token path fp objs sL logL
        = Some (Inl (Error (errorMessage ''Unable to fetch data from render '' (statusText rL)
                  (RENDER_API @ ''/'' @ path @ ''?'' @ searchParams_toString fp) token (bodyText rL))),
                sL', logL @ [(getRequest token path (searchParams_toString fp), Some rL)]))
   \<and> (validToken token \<and>
      failsAfter fetchG token path (filterParamsPaged (defaultLimitPaged paramsG)) sG pages rF \<longrightarrow>
      (\<exists>sF logF.
         snd (renderGetPaged fetchG sG token path paramsG)
           = Some (Inl (Error (errorMessage ''Unable to fetch data from render '' (statusText rF)
                     (url (fst (last logF))) token (bodyText rF))), sF, logF)
         \<and> length logF = length pages + 1
         \<and> snd (last logF) = Some rF
         \<and> (\<exists>qs. url (fst (last logF)) = RENDER_API @ ''/'' @ path @ ''?'' @ qs)))"
proof -
  have g: "validToken token \<and>
      fetch s (getRequest token path (queryString (defaultLimit params))) = (Some r, s') \<and> \<not> ok r \<longrightarrow>
      snd (snd (renderGet fetch s token path params))
        = Inl (Error (errorMessage ''Unable to fetch data from render '' (statusText r)
                 (RENDER_API @ ''/'' @ path @ ''?'' @ queryString (defaultLimit params))
                 token (bodyText r)))"
    by (simp add: renderGet_def Let_def getRequest_def)
  have p: "validToken token \<and>
      fetchP sP (postRequest token path (stringify b)) = (Some rP, sP') \<and> \<not> ok rP \<longrightarrow>
      snd (renderPost stringify fetchP sP token path b)
        = Inl (Error (errorMessage ''Unable to fetch post data from render '' (statusText rP)
                 (RENDER_API @ ''/'' @ path) token (bodyText rP)))"
    by (simp add: renderPost_def Let_def postRequest_def)
  have l1: "fetchL sL (getRequest token path (searchParams_toString fp)) = (Some rL, sL') \<and> \<not> ok rL \<longrightarrow>
      renderGetPaged_loop fetchL token path fp objs sL logL
        = Some (Inl (Error (errorMessage ''Unable to fetch data from render '' (statusText rL)
                  (RENDER_API @ ''/'' @ path @ ''?'' @ searchParams_toString fp) token (bodyText rL))),
                sL', logL @ [(getRequest token path (searchParams_toString fp), Some rL)])"
    by (subst renderGetPaged_loop.simps) (simp add: Let_def getRequest_def)
  have l2: "validToken token \<and>
      failsAfter fetchG token path (filterParamsPaged (defaultLimitPaged paramsG)) sG pages rF \<longrightarrow>
      (\<exists>sF logF.
         snd (renderGetPaged fetchG sG token path paramsG)
           = Some (Inl (Error (errorMessage ''Unable to fetch data from render '' (statusText rF)
                     (url (fst (last logF))) token (bodyText rF))), sF, logF)
         \<and> length logF = length pages + 1
         \<and> snd (last logF) = Some rF
         \<and> (\<exists>qs. url (fst (last logF)) = RENDER_API @ ''/'' @ path @ ''?'' @ qs))"
  proof (intro impI, elim conjE)
    assume "failsAfter fetchG token path (filterParamsPaged (defaultLimitPaged paramsG)) sG pages rF"
    from loop_failsAfter[OF this, of "[]" "[]"]
    show "\<exists>sF logF.
         snd (renderGetPaged fetchG sG token path paramsG)
           = Some (Inl (Error (errorMessage ''Unable to fetch data from render '' (statusText rF)
                     (url (fst (last logF))) token (bodyText rF))), sF, logF)
         \<and> length logF = length pages + 1
         \<and> snd (last logF) = Some rF
         \<and> (\<exists>qs. url (fst (last logF)) = RENDER_API @ ''/'' @ path @ ''?'' @ qs)"
      by (simp add: renderGetPaged_def Let_def)
  qed
  have pg: "snd (renderGetPaged fetchG sG token path paramsG) = Some (out, sG', log) \<and>
        (req, Some rG) \<in> set log \<and> \<not> ok rG \<longrightarrow>
      out = Inl (Error (errorMessage ''Unable to fetch data from render '' (statusText rG)
                 (url req) token (bodyText rG)))
      \<and> last log = (req, Some rG)
      \<and> (\<exists>qs. url req = RENDER_API @ ''/'' @ path @ ''?'' @ qs)"
  proof (rule impI)
    assume a: "snd (renderGetPaged fetchG sG token path paramsG) = Some (out, sG', log) \<and>
        (req, Some rG) \<in> set log \<and> \<not> ok rG"
    then have run: "snd (renderGetPaged fetchG sG token path paramsG) = Some (out, sG', log)"
      and mem: "(req, Some rG) \<in> set log" and nok: "\<not> ok rG" by simp_all
    let ?fp = "filterParamsPaged (defaultLimitPaged paramsG)"
    from renderGetPaged_trace[OF run] obtain mid e where
      l: "log = mid @ [e]" and fu: "list_all fullPage mid"
      and ch: "chain token path ?fp (mid @ [e])"
      and fin: "finalOutcome token (concat (map pageOf mid)) e = Some out"
      unfolding traceOK_def by auto
    have "(req, Some rG) \<notin> set mid"
    proof
      assume "(req, Some rG) \<in> set mid"
      with fu have "fullPage (req, Some rG)" by (simp add: list_all_iff)
      then have "ok rG" by (rule fullPage_ok)
      with nok show False by simp
    qed
    with mem l have e: "e = (req, Some rG)" by auto
    with l have last: "last log = (req, Some rG)" by simp
    from fin e nok have out: "out = Inl (Error (errorMessage ''Unable to fetch data from render ''
        (statusText rG) (url req) token (bodyText rG)))"
      by (simp add: finalOutcome_def)
    have "\<And>fp. chain token path fp (mid @ [e]) \<Longrightarrow> \<exists>qs. fst e = getRequest token path qs"
    proof (induction mid)
      case Nil
      then show ?case by auto
    next
      case (Cons x mid)
      from Cons.prems have "chain token path (setProp fp ''cursor'' (cursor (last (pageOf x)))) (mid @ [e])"
        by simp
      then show ?case by (rule Cons.IH)
    qed
    from this[OF ch] e obtain qs where "req = getRequest token path qs" by auto
    then have "url req = RENDER_API @ ''/'' @ path @ ''?'' @ qs" by (simp add: getRequest_def)
    with out last show "out = Inl (Error (errorMessage ''Unable to fetch data from render '' (statusText rG)
                   (url req) token (bodyText rG)))
        \<and> last log = (req, Some rG)
        \<and> (\<exists>qs. url req = RENDER_API @ ''/'' @ path @ ''?'' @ qs)" by blast
  qed
  have ni: "errorMessage intro status u token errorBody
        = errorMessage intro status u (slice_last6 token) errorBody"
    by (simp add: errorMessage_def slice_last6_idem)
  have e1: "str_includes (errorMessage intro status u ''supersecrettoken123456'' errorBody) ''*****123456''"
    using errorMessage_includes(3)[of intro status u "''supersecrettoken123456''" errorBody]
    by (simp add: slice_last6_def)
  have e2: "str_includes (errorMessage ''Unable to fetch data from render '' status u
           ''supersecrettoken123456'' errorBody) ''supersecret''
        \<longleftrightarrow> str_includes status ''supersecret'' \<or> str_includes u ''supersecret''
            \<or> str_includes errorBody ''supersecret''"
    using supersecret_in_message[of "''Unable to fetch data from render''" status u errorBody]
    by simp
  have e3: "str_includes (errorMessage ''Unable to fetch post data from render '' status u
           ''supersecrettoken123456'' errorBody) ''supersecret''
        \<longleftrightarrow> str_includes status ''supersecret'' \<or> str_includes u ''supersecret''
            \<or> str_includes errorBody ''supersecret''"
    using supersecret_in_message[of "''Unable to fetch post data from render''" status u errorBody]
    by simp
  from g p pg errorMessage_includes[of intro status u token errorBody] ni e1 e2 e3 l1 l2
  show ?thesis by (intro conjI)
qed


lemma queryString_empty: "queryString (defaultLimit []) = ''limit=100''"
  by (simp add: eval_defs)

text \<open>
  The theorem at the token \<^verbatim>\<open>supersecrettoken123456\<close> and a server that answers
  \<^verbatim>\<open>Unauthorized\<close>, at once or after a first page.
\<close>

theorem request_error_message_witness:
  "(validToken ''supersecrettoken123456''
      \<and> scripted [unauthorized :: unit response]
        (getRequest ''supersecrettoken123456'' ''services'' (queryString (defaultLimit [])))
      = (Some unauthorized, []) \<and> \<not> ok (unauthorized :: unit response))
   \<and> snd (snd (renderGet scripted [unauthorized :: unit response]
               ''supersecrettoken123456'' ''services'' []))
       = Inl (Error (errorMessage ''Unable to fetch data from render ''
                (statusText (unauthorized :: unit response))
                (RENDER_API @ ''/'' @ ''services'' @ ''?'' @ queryString (defaultLimit []))
                ''supersecrettoken123456'' (bodyText (unauthorized :: unit response))))
   \<and> (validToken ''supersecrettoken123456''
      \<and> scripted [unauthorized :: unit response]
        (postRequest ''supersecrettoken123456'' ''services'' ((\<lambda>b :: unit. ''{}'') ()))
      = (Some unauthorized, []) \<and> \<not> ok (unauthorized :: unit response))
   \<and> snd (renderPost (\<lambda>b :: unit. ''{}'') scripted [unauthorized :: unit response]
            ''supersecrettoken123456'' ''services'' ())
       = Inl (Error (errorMessage ''Unable to fetch post data from render ''
                (statusText (unauthorized :: unit response))
                (RENDER_API @ ''/'' @ ''services'')
                ''supersecrettoken123456'' (bodyText (unauthorized :: unit response))))
   \<and> (snd (renderGetPaged scripted [okPage [\<lparr>cursor = ''c1''\<rparr>], unauthorized]
              ''supersecrettoken123456'' ''services'' [])
       = Some (Inl (Error (errorMessage ''Unable to fetch data from render ''
                (statusText (unauthorized :: cursored list response))
                (url (getRequest ''supersecrettoken123456'' ''services'' ''limit=100&cursor=c1''))
                ''supersecrettoken123456'' (bodyText (unauthorized :: cursored list response)))),
               [],
               [(getRequest ''supersecrettoken123456'' ''services'' ''limit=100'',
                   Some (okPage [\<lparr>cursor = ''c1''\<rparr>])),
                (getRequest ''supersecrettoken123456'' ''services'' ''limit=100&cursor=c1'',
                   Some unauthorized)])
      \<and> (getRequest ''supersecrettoken123456'' ''services'' ''limit=100&cursor=c1'',
            Some (unauthorized :: cursored list response))
          \<in> set [(getRequest ''supersecrettoken123456'' ''services'' ''limit=100'',
                   Some (okPage [\<lparr>cursor = ''c1''\<rparr>])),
                (getRequest ''supersecrettoken123456'' ''services'' ''limit=100&cursor=c1'',
                   Some unauthorized)]
      \<and> \<not> ok (unauthorized :: cursored list response))
   \<and> (scripted [unauthorized :: cursored list response]
        (getRequest ''supersecrettoken123456'' ''services''
           (searchParams_toString [(''limit'', ''100'')]))
      = (Some unauthorized, []) \<and> \<not> ok (unauthorized :: cursored list response))
   \<and> renderGetPaged_loop scripted ''supersecrettoken123456'' ''services'' [(''limit'', ''100'')] []
        [unauthorized :: cursored list response] []
       = Some (Inl (Error (errorMessage ''Unable to fetch data from render ''
                 (statusText (unauthorized :: cursored list response))
                 (RENDER_API @ ''/'' @ ''services'' @ ''?'' @
                    searchParams_toString [(''limit'', ''100'')])
                 ''supersecrettoken123456'' (bodyText (unauthorized :: cursored list response)))),
               [],
               [] @ [(getRequest ''supersecrettoken123456'' ''services''
                        (searchParams_toString [(''limit'', ''100'')]), Some unauthorized)])
   \<and> (validToken ''supersecrettoken123456''
      \<and> failsAfter scripted ''supersecrettoken123456'' ''services''
          (filterParamsPaged (defaultLimitPaged []))
          [okPage [\<lparr>cursor = ''c1''\<rparr>], unauthorized] [[\<lparr>cursor = ''c1''\<rparr>]] unauthorized)
   \<and> errorMessage ''Unable to fetch data from render ''
         (statusText (unauthorized :: unit response))
         (RENDER_API @ ''/'' @ ''services'' @ ''?'' @ queryString (defaultLimit []))
         ''supersecrettoken123456'' (bodyText (unauthorized :: unit response))
       = ''Unable to fetch data from render Unauthorized'' @ newline @
         ''url: https://api.render.com/v1/services?limit=100'' @ newline @
         ''api key: *****123456'' @ newline @ ''invalid api key''"
proof -
  let ?tok = "''supersecrettoken123456''"
  let ?reqG = "getRequest ?tok ''services'' ''limit=100&cursor=c1''"
  let ?log = "[(getRequest ?tok ''services'' ''limit=100'', Some (okPage [\<lparr>cursor = ''c1''\<rparr>])),
           (?reqG, Some (unauthorized :: cursored list response))]"
  let ?msgG = "errorMessage ''Unable to fetch data from render ''
                 (statusText (unauthorized :: cursored list response))
                 (url ?reqG) ?tok (bodyText (unauthorized :: cursored list response))"
  note t = request_error_message[where fetch = scripted and s = "[unauthorized :: unit response]"
      and token = ?tok and path = "''services''" and params = "[]"
      and r = "unauthorized" and s' = "[]"
      and fetchP = scripted and sP = "[unauthorized :: unit response]"
      and stringify = "\<lambda>b :: unit. ''{}''" and b = "()"
      and rP = "unauthorized" and sP' = "[]"
      and fetchG = scripted and sG = "[okPage [\<lparr>cursor = ''c1''\<rparr>], unauthorized]" and paramsG = "[]"
      and out = "Inl (Error ?msgG)" and sG' = "[]" and log = ?log and req = ?reqG
      and rG = "unauthorized"
      and fetchL = scripted and sL = "[unauthorized :: cursored list response]"
      and fp = "[(''limit'', ''100'')]" and objs = "[]" and logL = "[]"
      and rL = "unauthorized" and sL' = "[]"
      and pages = "[[\<lparr>cursor = ''c1''\<rparr>]]" and rF = "unauthorized"]
  have v: "validToken ?tok" by (simp add: validToken_def)
  have h1: "validToken ?tok \<and> scripted [unauthorized :: unit response]
        (getRequest ?tok ''services'' (queryString (defaultLimit [])))
     = (Some unauthorized, []) \<and> \<not> ok (unauthorized :: unit response)"
    using v by (simp add: unauthorized_def)
  have h2: "validToken ?tok \<and> scripted [unauthorized :: unit response]
        (postRequest ?tok ''services'' ((\<lambda>b :: unit. ''{}'') ()))
     = (Some unauthorized, []) \<and> \<not> ok (unauthorized :: unit response)"
    using v by (simp add: unauthorized_def)
  have c1: "urlencode ''c1'' = ''c1''" by (simp add: urlencode_def urlencodeChar_def unreserved_def)
  have run: "snd (renderGetPaged scripted [okPage [\<lparr>cursor = ''c1''\<rparr>], unauthorized] ?tok ''services'' [])
     = Some (Inl (Error ?msgG), [], ?log)"
    unfolding renderGetPaged_def Let_def filterParamsPaged_empty
    apply (subst renderGetPaged_loop.simps)
    apply (simp add: okPage_def toString_limit)
    apply (subst renderGetPaged_loop.simps)
    apply (simp add: okPage_def toString_limit_cursor c1 Let_def unauthorized_def)
    done
  have h3: "snd (renderGetPaged scripted [okPage [\<lparr>cursor = ''c1''\<rparr>], unauthorized] ?tok ''services'' [])
     = Some (Inl (Error ?msgG), [], ?log) \<and> (?reqG, Some unauthorized) \<in> set ?log
     \<and> \<not> ok (unauthorized :: cursored list response)"
    using run by (simp add: unauthorized_def)
  have h4: "scripted [unauthorized :: cursored list response]
        (getRequest ?tok ''services'' (searchParams_toString [(''limit'', ''100'')]))
      = (Some unauthorized, []) \<and> \<not> ok (unauthorized :: cursored list response)"
    by (simp add: unauthorized_def)
  have h5: "validToken ?tok \<and> failsAfter scripted ?tok ''services''
          (filterParamsPaged (defaultLimitPaged []))
          [okPage [\<lparr>cursor = ''c1''\<rparr>], unauthorized] [[\<lparr>cursor = ''c1''\<rparr>]] unauthorized"
    using v by (simp add: filterParamsPaged_empty okPage_def unauthorized_def)
  have m: "errorMessage ''Unable to fetch data from render ''
         (statusText (unauthorized :: unit response))
         (RENDER_API @ ''/'' @ ''services'' @ ''?'' @ queryString (defaultLimit []))
         ?tok (bodyText (unauthorized :: unit response))
     = ''Unable to fetch data from render Unauthorized'' @ newline @
              ''url: https://api.render.com/v1/services?limit=100'' @ newline @
              ''api key: *****123456'' @ newline @ ''invalid api key''"
    by (simp add: errorMessage_def RENDER_API_def slice_last6_def unauthorized_def queryString_empty)
  note A = t[THEN conjunct1, THEN mp, OF h1]
  note B = t[THEN conjunct2, THEN conjunct1, THEN mp, OF h2]
  note C = t[THEN conjunct2, THEN conjunct2, THEN conjunct2, THEN conjunct2, THEN conjunct2,
      THEN conjunct2, THEN conjunct2, THEN conjunct2, THEN conjunct1, THEN mp, OF h4]
  from h1 A h2 B h3 h4 C h5 m show ?thesis by blast
qed

text \<open>
  The claim as it was stated fails where the server repeats the token in the body of
  its answer: the body is copied into the message, and so the message contains
  \<^verbatim>\<open>supersecret\<close>.
\<close>

theorem request_error_message_counterexample:
  "snd (snd (renderGet scripted
        [\<lparr>ok = False, statusText = ''Unauthorized'',
          bodyText = ''invalid api key supersecrettoken123456'', json = (None :: unit option)\<rparr>]
        ''supersecrettoken123456'' ''services'' []))
       = Inl (Error (''Unable to fetch data from render Unauthorized'' @ newline @
              ''url: https://api.render.com/v1/services?limit=100'' @ newline @
              ''api key: *****123456'' @ newline @ ''invalid api key supersecrettoken123456''))
   \<and> str_includes (''Unable to fetch data from render Unauthorized'' @ newline @
              ''url: https://api.render.com/v1/services?limit=100'' @ newline @
              ''api key: *****123456'' @ newline @ ''invalid api key supersecrettoken123456'')
         ''supersecret''"
proof
  show "snd (snd (renderGet scripted
        [\<lparr>ok = False, statusText = ''Unauthorized'',
          bodyText = ''invalid api key supersecrettoken123456'', json = (None :: unit option)\<rparr>]
        ''supersecrettoken123456'' ''services'' []))
       = Inl (Error (''Unable to fetch data from render Unauthorized'' @ newline @
              ''url: https://api.render.com/v1/services?limit=100'' @ newline @
              ''api key: *****123456'' @ newline @ ''invalid api key supersecrettoken123456''))"
    by (simp add: renderGet_def Let_def queryString_empty getRequest_def errorMessage_def
        RENDER_API_def slice_last6_def)
  show "str_includes (''Unable to fetch data from render Unauthorized'' @ newline @
              ''url: https://api.render.com/v1/services?limit=100'' @ newline @
              ''api key: *****123456'' @ newline @ ''invalid api key supersecrettoken123456'')
         ''supersecret''"
    by (simp add: newline_def)
qed


text \<open>
  The message of the earlier revision holds the API key of the environment in full.
\<close>

lemma errorMessage_part001_leaks:
  "str_includes (errorMessage_part001 status (Some k) errorBody) k"
proof -
  have "errorMessage_part001 status (Some k) errorBody
    = (''Unable to fetch data from render '' @ status @ '' '') @ k @ ('':'' @ newline @ errorBody)"
    by (simp add: errorMessage_part001_def)
  then show ?thesis by (simp only: str_includes_mid)
qed

subsection \<open>The caller's bag\<close>




subsection \<open>The resolver\<close>

text \<open>
  Claim C10. For an input that starts with \<^verbatim>\<open>srv-\<close>, \<^verbatim>\<open>determineService\<close> is
  \<^verbatim>\<open>getService\<close>: one request, for the path \<^verbatim>\<open>/services/\<close> followed by the input, whose
  response alone decides the outcome. The list of services is not fetched and no name
  is matched: the outcome is the same whatever the list endpoint and the matcher are.
  So a service whose name starts with \<^verbatim>\<open>srv-\<close> is never resolved by its name.
\<close>

theorem determineService_id_path:
  "isServiceID serviceIDOrName \<longrightarrow>
     determineService rx fetchService fetchServices s apiKey serviceIDOrName
       = Some (getService fetchService s apiKey serviceIDOrName)
     \<and> determineService rx fetchService fetchServices s apiKey serviceIDOrName
       = determineService rx' fetchService fetchServices' s apiKey serviceIDOrName
     \<and> fst (getService fetchService s apiKey serviceIDOrName)
       = snd (fetchService s (getRequest apiKey (''/services/'' @ serviceIDOrName) ''limit=100''))
     \<and> snd (getService fetchService s apiKey serviceIDOrName)
       = (case fst (fetchService s (getRequest apiKey (''/services/'' @ serviceIDOrName) ''limit=100'')) of
            None \<Rightarrow> Inl TypeError
          | Some r \<Rightarrow>
              if \<not> ok r
              then Inl (Error (errorMessage ''Unable to fetch data from render '' (statusText r)
                     (RENDER_API @ ''//services/'' @ serviceIDOrName @ ''?limit=100'') apiKey
                     (bodyText r)))
              else (case json r of None \<Rightarrow> Inl SyntaxError | Some j \<Rightarrow> Inr j))"
proof (rule impI)
  assume i: "isServiceID serviceIDOrName"
  have g: "getService fetchService s apiKey serviceIDOrName
    = (snd (fetchService s (getRequest apiKey (''/services/'' @ serviceIDOrName) ''limit=100'')),
       (case fst (fetchService s (getRequest apiKey (''/services/'' @ serviceIDOrName) ''limit=100'')) of
            None \<Rightarrow> Inl TypeError
          | Some r \<Rightarrow>
              if \<not> ok r
              then Inl (Error (errorMessage ''Unable to fetch data from render '' (statusText r)
                     (RENDER_API @ ''//services/'' @ serviceIDOrName @ ''?limit=100'') apiKey
                     (bodyText r)))
              else (case json r of None \<Rightarrow> Inl SyntaxError | Some j \<Rightarrow> Inr j)))"
    by (simp add: getService_def renderGet_def Let_def queryString_empty getRequest_def
        case_prod_beta split: option.splits)
  from i have d: "\<And>rx fetchServices. determineService rx fetchService fetchServices s apiKey serviceIDOrName
       = Some (getService fetchService s apiKey serviceIDOrName)"
    by (simp add: determineService_def)
  show "determineService rx fetchService fetchServices s apiKey serviceIDOrName
       = Some (getService fetchService s apiKey serviceIDOrName)
     \<and> determineService rx fetchService fetchServices s apiKey serviceIDOrName
       = determineService rx' fetchService fetchServices' s apiKey serviceIDOrName
     \<and> fst (getService fetchService s apiKey serviceIDOrName)
       = snd (fetchService s (getRequest apiKey (''/services/'' @ serviceIDOrName) ''limit=100''))
     \<and> snd (getService fetchService s apiKey serviceIDOrName)
       = (case fst (fetchService s (getRequest apiKey (''/services/'' @ serviceIDOrName) ''limit=100'')) of
            None \<Rightarrow> Inl TypeError
          | Some r \<Rightarrow>
              if \<not> ok r
              then Inl (Error (errorMessage ''Unable to fetch data from render '' (statusText r)
                     (RENDER_API @ ''//services/'' @ serviceIDOrName @ ''?limit=100'') apiKey
                     (bodyText r)))
              else (case json r of None \<Rightarrow> Inl SyntaxError | Some j \<Rightarrow> Inr j))"
    unfolding d by (simp add: g)
qed


text \<open>The theorem at the input \<^verbatim>\<open>srv-abc\<close> and a server that knows this service.\<close>

theorem determineService_id_path_witness:
  "isServiceID ''srv-abc''
   \<and> determineService plainMatch scripted
         (\<lambda>(s :: service response list) (req :: request). (None :: unit serviceCursor list response option, s))
         [okPage \<lparr>serviceId = ''srv-abc'', name = ''web''\<rparr>] ''key'' ''srv-abc''
       = Some ([], Inr \<lparr>serviceId = ''srv-abc'', name = ''web''\<rparr>)"
proof -
  have i: "isServiceID ''srv-abc''" by (simp add: isServiceID_def startsWith_def)
  note t = determineService_id_path[where serviceIDOrName = "''srv-abc''" and rx = plainMatch
      and fetchService = scripted
      and fetchServices = "\<lambda>(s :: service response list) (req :: request).
            (None :: unit serviceCursor list response option, s)"
      and s = "[okPage \<lparr>serviceId = ''srv-abc'', name = ''web''\<rparr>]" and apiKey = "''key''"
      and rx' = plainMatch
      and fetchServices' = "\<lambda>(s :: service response list) (req :: request).
            (None :: unit serviceCursor list response option, s)"]
  have g: "getService scripted [okPage \<lparr>serviceId = ''srv-abc'', name = ''web''\<rparr>] ''key'' ''srv-abc''
    = ([], Inr \<lparr>serviceId = ''srv-abc'', name = ''web''\<rparr>)"
    by (simp add: getService_def renderGet_def Let_def okPage_def)
  from t[THEN mp, OF i, THEN conjunct1] g i show ?thesis by simp
qed

lemma getServices_scripted:
  assumes "\<forall>p\<in>set pages. p \<noteq> []"
  shows "getServices rx scripted (map okPage pages @ [okPage []]) token nameFilter
     = Some ([], if nameFilter \<noteq> [] then filterByName rx nameFilter (map service (concat pages))
                 else Inr (map service (concat pages)))"
proof -
  from loop_scripted[OF assms, of token "''services''" "filterParamsPaged (defaultLimitPaged [])"
      "[]" "[]" "[]"]
  obtain log' where "renderGetPaged_loop scripted token ''services''
      (filterParamsPaged (defaultLimitPaged [])) [] (map okPage pages @ [okPage []]) []
      = Some (Inr (concat pages), [], log')" by auto
  then show ?thesis by (simp add: getServices_def renderGetPaged_def Let_def)
qed

lemma join_includes: "x \<in> set xs \<Longrightarrow> \<exists>a b. join sep xs = a @ x @ b"
proof (induction sep xs rule: join.induct)
  case (1 sep)
  then show ?case by simp
next
  case (2 sep y)
  then have "join sep [y] = [] @ x @ []" by simp
  then show ?case by blast
next
  case (3 sep y z zs)
  show ?case
  proof (cases "x = y")
    case True
    then have "join sep (y # z # zs) = [] @ x @ (sep @ join sep (z # zs))" by simp
    then show ?thesis by blast
  next
    case False
    with 3 obtain a b where "join sep (z # zs) = a @ x @ b" by auto
    then have "join sep (y # z # zs) = (y @ sep @ a) @ x @ b" by simp
    then show ?thesis by blast
  qed
qed

text \<open>
  Claim C5. Let the input be no service id and let more than one service match it,
  that is, let \<^verbatim>\<open>getServices\<close> return more than one service for it. If one of them
  has the input as its name, \<^verbatim>\<open>determineService\<close> returns a service of that name: the
  first of them in the list. Against the services \<^verbatim>\<open>foo-prod-staging\<close>, \<^verbatim>\<open>foo-prod\<close> and
  \<^verbatim>\<open>foo-prod-canary\<close>, which all contain the input \<^verbatim>\<open>foo-prod\<close>, it returns the service
  named \<^verbatim>\<open>foo-prod\<close>.
\<close>

theorem determineService_exact_match:
  "(\<not> isServiceID input \<and> getServices rx fetchServices s apiKey input = Some (s', Inr services)
      \<and> 1 < length services \<and> sv \<in> set services \<and> name sv = input \<longrightarrow>
      (\<exists>m. determineService rx fetchService fetchServices s apiKey input = Some (s', Inr m)
           \<and> m \<in> set services \<and> name m = input
           \<and> find (\<lambda>sv. name sv = input) services = Some m))
   \<and> determineService plainMatch fetchService' scripted
        [okPage [\<lparr>cursor = ''c1'', service = \<lparr>serviceId = ''srv-1'', name = ''foo-prod-staging''\<rparr>\<rparr>,
                 \<lparr>cursor = ''c2'', service = \<lparr>serviceId = ''srv-2'', name = ''foo-prod''\<rparr>\<rparr>,
                 \<lparr>cursor = ''c3'', service = \<lparr>serviceId = ''srv-3'', name = ''foo-prod-canary''\<rparr>\<rparr>],
         okPage []] ''key'' ''foo-prod''
       = Some ([], Inr \<lparr>serviceId = ''srv-2'', name = ''foo-prod''\<rparr>)"
proof
  show "\<not> isServiceID input \<and> getServices rx fetchServices s apiKey input = Some (s', Inr services)
      \<and> 1 < length services \<and> sv \<in> set services \<and> name sv = input \<longrightarrow>
      (\<exists>m. determineService rx fetchService fetchServices s apiKey input = Some (s', Inr m)
           \<and> m \<in> set services \<and> name m = input
           \<and> find (\<lambda>sv. name sv = input) services = Some m)"
  proof (rule impI)
    assume a: "\<not> isServiceID input \<and> getServices rx fetchServices s apiKey input = Some (s', Inr services)
      \<and> 1 < length services \<and> sv \<in> set services \<and> name sv = input"
    then have "find (\<lambda>sv. name sv = input) services \<noteq> None"
      by (auto simp: find_None_iff)
    then obtain m where m: "find (\<lambda>sv. name sv = input) services = Some m" by auto
    then have mm: "m \<in> set services" "name m = input"
      by (auto simp: find_Some_iff)
    from a have "services \<noteq> []" "length services \<noteq> Suc 0" by auto
    with a m have "determineService rx fetchService fetchServices s apiKey input = Some (s', Inr m)"
      by (simp add: determineService_def)
    with m mm show "\<exists>m. determineService rx fetchService fetchServices s apiKey input = Some (s', Inr m)
           \<and> m \<in> set services \<and> name m = input
           \<and> find (\<lambda>sv. name sv = input) services = Some m" by blast
  qed
next
  let ?pages = "[[\<lparr>cursor = ''c1'', service = \<lparr>serviceId = ''srv-1'', name = ''foo-prod-staging''\<rparr>\<rparr>,
                 \<lparr>cursor = ''c2'', service = \<lparr>serviceId = ''srv-2'', name = ''foo-prod''\<rparr>\<rparr>,
                 \<lparr>cursor = ''c3'', service = \<lparr>serviceId = ''srv-3'', name = ''foo-prod-canary''\<rparr>\<rparr>]]"
  have "\<forall>p\<in>set ?pages. p \<noteq> []" by simp
  from getServices_scripted[OF this, of plainMatch "''key''" "''foo-prod''"]
  have "getServices plainMatch scripted (map okPage ?pages @ [okPage []]) ''key'' ''foo-prod''
    = Some ([], Inr [\<lparr>serviceId = ''srv-1'', name = ''foo-prod-staging''\<rparr>,
                     \<lparr>serviceId = ''srv-2'', name = ''foo-prod''\<rparr>,
                     \<lparr>serviceId = ''srv-3'', name = ''foo-prod-canary''\<rparr>])"
    by (simp add: plainMatch_def)
  then show "determineService plainMatch fetchService' scripted
        [okPage [\<lparr>cursor = ''c1'', service = \<lparr>serviceId = ''srv-1'', name = ''foo-prod-staging''\<rparr>\<rparr>,
                 \<lparr>cursor = ''c2'', service = \<lparr>serviceId = ''srv-2'', name = ''foo-prod''\<rparr>\<rparr>,
                 \<lparr>cursor = ''c3'', service = \<lparr>serviceId = ''srv-3'', name = ''foo-prod-canary''\<rparr>\<rparr>],
         okPage []] ''key'' ''foo-prod''
       = Some ([], Inr \<lparr>serviceId = ''srv-2'', name = ''foo-prod''\<rparr>)"
    by (simp add: determineService_def isServiceID_def startsWith_def)
qed


text \<open>The theorem at the three services of the example.\<close>

theorem determineService_exact_match_witness:
  "\<not> isServiceID ''foo-prod''
   \<and> getServices plainMatch scripted
        [okPage [\<lparr>cursor = ''c1'', service = \<lparr>serviceId = ''srv-1'', name = ''foo-prod-staging''\<rparr>\<rparr>,
                 \<lparr>cursor = ''c2'', service = \<lparr>serviceId = ''srv-2'', name = ''foo-prod''\<rparr>\<rparr>,
                 \<lparr>cursor = ''c3'', service = \<lparr>serviceId = ''srv-3'', name = ''foo-prod-canary''\<rparr>\<rparr>],
         okPage []] ''key'' ''foo-prod''
       = Some ([], Inr [\<lparr>serviceId = ''srv-1'', name = ''foo-prod-staging''\<rparr>,
                        \<lparr>serviceId = ''srv-2'', name = ''foo-prod''\<rparr>,
                        \<lparr>serviceId = ''srv-3'', name = ''foo-prod-canary''\<rparr>])
   \<and> 1 < length [\<lparr>serviceId = ''srv-1'', name = ''foo-prod-staging''\<rparr>,
                  \<lparr>serviceId = ''srv-2'', name = ''foo-prod''\<rparr>,
                  \<lparr>serviceId = ''srv-3'', name = ''foo-prod-canary''\<rparr>]
   \<and> name \<lparr>serviceId = ''srv-2'', name = ''foo-prod''\<rparr> = ''foo-prod''
   \<and> (\<exists>m. determineService plainMatch
              (\<lambda>(s :: unit serviceCursor list response list) (req :: request).
                 (None :: service response option, s))
              scripted
        [okPage [\<lparr>cursor = ''c1'', service = \<lparr>serviceId = ''srv-1'', name = ''foo-prod-staging''\<rparr>\<rparr>,
                 \<lparr>cursor = ''c2'', service = \<lparr>serviceId = ''srv-2'', name = ''foo-prod''\<rparr>\<rparr>,
                 \<lparr>cursor = ''c3'', service = \<lparr>serviceId = ''srv-3'', name = ''foo-prod-canary''\<rparr>\<rparr>],
         okPage []] ''key'' ''foo-prod'' = Some ([], Inr m)
         \<and> name m = ''foo-prod'')"
proof -
  let ?pages = "[[\<lparr>cursor = ''c1'', service = \<lparr>serviceId = ''srv-1'', name = ''foo-prod-staging''\<rparr>\<rparr>,
                 \<lparr>cursor = ''c2'', service = \<lparr>serviceId = ''srv-2'', name = ''foo-prod''\<rparr>\<rparr>,
                 \<lparr>cursor = ''c3'', service = \<lparr>serviceId = ''srv-3'', name = ''foo-prod-canary''\<rparr>\<rparr>]]"
  let ?services = "[\<lparr>serviceId = ''srv-1'', name = ''foo-prod-staging''\<rparr>,
                        \<lparr>serviceId = ''srv-2'', name = ''foo-prod''\<rparr>,
                        \<lparr>serviceId = ''srv-3'', name = ''foo-prod-canary''\<rparr>]"
  let ?fS = "\<lambda>(s :: unit serviceCursor list response list) (req :: request).
                 (None :: service response option, s)"
  have ne: "\<forall>p\<in>set ?pages. p \<noteq> []" by simp
  have i: "\<not> isServiceID ''foo-prod''" by (simp add: isServiceID_def startsWith_def)
  from getServices_scripted[OF ne, of plainMatch "''key''" "''foo-prod''"]
  have g: "getServices plainMatch scripted (map okPage ?pages @ [okPage []]) ''key'' ''foo-prod''
    = Some ([], Inr ?services)"
    by (simp add: plainMatch_def)
  then have g': "getServices plainMatch scripted
        [okPage [\<lparr>cursor = ''c1'', service = \<lparr>serviceId = ''srv-1'', name = ''foo-prod-staging''\<rparr>\<rparr>,
                 \<lparr>cursor = ''c2'', service = \<lparr>serviceId = ''srv-2'', name = ''foo-prod''\<rparr>\<rparr>,
                 \<lparr>cursor = ''c3'', service = \<lparr>serviceId = ''srv-3'', name = ''foo-prod-canary''\<rparr>\<rparr>],
         okPage []] ''key'' ''foo-prod'' = Some ([], Inr ?services)" by simp
  have l: "1 < length ?services" by simp
  have n: "name \<lparr>serviceId = ''srv-2'', name = ''foo-prod''\<rparr> = ''foo-prod''" by simp
  have h: "\<not> isServiceID ''foo-prod'' \<and> getServices plainMatch scripted
        [okPage [\<lparr>cursor = ''c1'', service = \<lparr>serviceId = ''srv-1'', name = ''foo-prod-staging''\<rparr>\<rparr>,
                 \<lparr>cursor = ''c2'', service = \<lparr>serviceId = ''srv-2'', name = ''foo-prod''\<rparr>\<rparr>,
                 \<lparr>cursor = ''c3'', service = \<lparr>serviceId = ''srv-3'', name = ''foo-prod-canary''\<rparr>\<rparr>],
         okPage []] ''key'' ''foo-prod'' = Some ([], Inr ?services)
      \<and> 1 < length ?services \<and> \<lparr>serviceId = ''srv-2'', name = ''foo-prod''\<rparr> \<in> set ?services
      \<and> name \<lparr>serviceId = ''srv-2'', name = ''foo-prod''\<rparr> = ''foo-prod''"
    using i g' by simp
  from determineService_exact_match[where fetchService = ?fS, THEN conjunct1, THEN mp, OF h]
  obtain m where "determineService plainMatch ?fS scripted
        [okPage [\<lparr>cursor = ''c1'', service = \<lparr>serviceId = ''srv-1'', name = ''foo-prod-staging''\<rparr>\<rparr>,
                 \<lparr>cursor = ''c2'', service = \<lparr>serviceId = ''srv-2'', name = ''foo-prod''\<rparr>\<rparr>,
                 \<lparr>cursor = ''c3'', service = \<lparr>serviceId = ''srv-3'', name = ''foo-prod-canary''\<rparr>\<rparr>],
         okPage []] ''key'' ''foo-prod'' = Some ([], Inr m)" "name m = ''foo-prod''" by blast
  with i g' l n show ?thesis by blast
qed

text \<open>
  Claim C6. Let the input be no service id. If \<^verbatim>\<open>getServices\<close> returns no service for it,
  \<^verbatim>\<open>determineService\<close> fails with the message \<^verbatim>\<open>No services found with ID or name\<close>
  followed by the input. If it returns more than one and none has the input as its
  name, \<^verbatim>\<open>determineService\<close> fails with a message that lists every one of them as its
  name followed by its id in parentheses. If it returns exactly one,
  \<^verbatim>\<open>determineService\<close> returns that service.
\<close>

theorem determineService_failures:
  "(\<not> isServiceID input \<and> getServices rx fetchServices s apiKey input = Some (s', Inr []) \<longrightarrow>
      determineService rx fetchService fetchServices s apiKey input
        = Some (s', Inl (Error (''No services found with ID or name '' @ input)))
      \<and> str_includes (''No services found with ID or name '' @ input) input)
   \<and> (\<not> isServiceID input2 \<and> getServices rx2 fetchServices2 s2 apiKey input2 = Some (s2', Inr services)
        \<and> 1 < length services \<and> (\<forall>sv\<in>set services. name sv \<noteq> input2) \<longrightarrow>
      determineService rx2 fetchService2 fetchServices2 s2 apiKey input2
        = Some (s2', Inl (Error (''Too many services found with '' @ input2 @ '':'' @ newline @
                   join (''  '' @ newline) (map describeService services))))
      \<and> (\<forall>sv\<in>set services.
            str_includes (''Too many services found with '' @ input2 @ '':'' @ newline @
                   join (''  '' @ newline) (map describeService services))
              (name sv @ '' ('' @ serviceId sv @ '')'')))
   \<and> (\<not> isServiceID input3 \<and> getServices rx3 fetchServices3 s3 apiKey input3 = Some (s3', Inr [only]) \<longrightarrow>
      determineService rx3 fetchService3 fetchServices3 s3 apiKey input3 = Some (s3', Inr only))"
proof (intro conjI)
  show "\<not> isServiceID input \<and> getServices rx fetchServices s apiKey input = Some (s', Inr []) \<longrightarrow>
      determineService rx fetchService fetchServices s apiKey input
        = Some (s', Inl (Error (''No services found with ID or name '' @ input)))
      \<and> str_includes (''No services found with ID or name '' @ input) input"
  proof (rule impI)
    assume a: "\<not> isServiceID input \<and> getServices rx fetchServices s apiKey input = Some (s', Inr [])"
    have "str_includes (''No services found with ID or name '' @ input @ []) input"
      by (rule str_includes_mid)
    with a show "determineService rx fetchService fetchServices s apiKey input
        = Some (s', Inl (Error (''No services found with ID or name '' @ input)))
      \<and> str_includes (''No services found with ID or name '' @ input) input"
      by (simp add: determineService_def)
  qed
next
  show "\<not> isServiceID input2 \<and> getServices rx2 fetchServices2 s2 apiKey input2 = Some (s2', Inr services)
        \<and> 1 < length services \<and> (\<forall>sv\<in>set services. name sv \<noteq> input2) \<longrightarrow>
      determineService rx2 fetchService2 fetchServices2 s2 apiKey input2
        = Some (s2', Inl (Error (''Too many services found with '' @ input2 @ '':'' @ newline @
                   join (''  '' @ newline) (map describeService services))))
      \<and> (\<forall>sv\<in>set services.
            str_includes (''Too many services found with '' @ input2 @ '':'' @ newline @
                   join (''  '' @ newline) (map describeService services))
              (name sv @ '' ('' @ serviceId sv @ '')''))"
  proof (rule impI)
    assume a: "\<not> isServiceID input2 \<and> getServices rx2 fetchServices2 s2 apiKey input2 = Some (s2', Inr services)
        \<and> 1 < length services \<and> (\<forall>sv\<in>set services. name sv \<noteq> input2)"
    then have f: "find (\<lambda>sv. name sv = input2) services = None"
      by (auto simp: find_None_iff)
    from a have "services \<noteq> []" "length services \<noteq> Suc 0" by auto
    with a f have d: "determineService rx2 fetchService2 fetchServices2 s2 apiKey input2
        = Some (s2', Inl (Error (''Too many services found with '' @ input2 @ '':'' @ newline @
                   join (''  '' @ newline) (map describeService services))))"
      by (simp add: determineService_def)
    have "\<forall>sv\<in>set services.
            str_includes (''Too many services found with '' @ input2 @ '':'' @ newline @
                   join (''  '' @ newline) (map describeService services))
              (name sv @ '' ('' @ serviceId sv @ '')'')"
    proof
      fix sv assume "sv \<in> set services"
      then have "describeService sv \<in> set (map describeService services)" by simp
      from join_includes[OF this, of "''  '' @ newline"] obtain a b where
        "join (''  '' @ newline) (map describeService services) = a @ describeService sv @ b" by blast
      then have "''Too many services found with '' @ input2 @ '':'' @ newline @
                   join (''  '' @ newline) (map describeService services)
        = (''Too many services found with '' @ input2 @ '':'' @ newline @ a)
          @ (name sv @ '' ('' @ serviceId sv @ '')'') @ b"
        by (simp add: describeService_def)
      then show "str_includes (''Too many services found with '' @ input2 @ '':'' @ newline @
                   join (''  '' @ newline) (map describeService services))
              (name sv @ '' ('' @ serviceId sv @ '')'')"
        by (simp only: str_includes_mid)
    qed
    with d show "determineService rx2 fetchService2 fetchServices2 s2 apiKey input2
        = Some (s2', Inl (Error (''Too many services found with '' @ input2 @ '':'' @ newline @
                   join (''  '' @ newline) (map describeService services))))
      \<and> (\<forall>sv\<in>set services.
            str_includes (''Too many services found with '' @ input2 @ '':'' @ newline @
                   join (''  '' @ newline) (map describeService services))
              (name sv @ '' ('' @ serviceId sv @ '')''))" by blast
  qed
next
  show "\<not> isServiceID input3 \<and> getServices rx3 fetchServices3 s3 apiKey input3 = Some (s3', Inr [only]) \<longrightarrow>
      determineService rx3 fetchService3 fetchServices3 s3 apiKey input3 = Some (s3', Inr only)"
    by (simp add: determineService_def)
qed


lemma getServices_twoServices:
  "getServices plainMatch scripted twoServices ''key'' nameFilter
     = Some ([], if nameFilter \<noteq> []
                 then filterByName plainMatch nameFilter
                        [\<lparr>serviceId = ''srv-1'', name = ''foo-a''\<rparr>, \<lparr>serviceId = ''srv-2'', name = ''foo-b''\<rparr>]
                 else Inr [\<lparr>serviceId = ''srv-1'', name = ''foo-a''\<rparr>, \<lparr>serviceId = ''srv-2'', name = ''foo-b''\<rparr>])"
proof -
  let ?pages = "[[\<lparr>cursor = ''c1'', service = \<lparr>serviceId = ''srv-1'', name = ''foo-a''\<rparr>\<rparr>,
              \<lparr>cursor = ''c2'', service = \<lparr>serviceId = ''srv-2'', name = ''foo-b''\<rparr>\<rparr>]]"
  have "\<forall>p\<in>set ?pages. p \<noteq> []" by simp
  from getServices_scripted[OF this, of plainMatch "''key''" nameFilter]
  show ?thesis by (simp add: twoServices_def)
qed

text \<open>
  The theorem at the services \<^verbatim>\<open>foo-a\<close> and \<^verbatim>\<open>foo-b\<close> and the inputs \<^verbatim>\<open>nonexistent\<close>,
  \<^verbatim>\<open>foo\<close> and \<^verbatim>\<open>foo-a\<close>.
\<close>

theorem determineService_failures_witness:
  "(\<not> isServiceID ''nonexistent''
      \<and> getServices plainMatch scripted twoServices ''key'' ''nonexistent'' = Some ([], Inr []))
   \<and> determineService plainMatch noService scripted twoServices ''key'' ''nonexistent''
       = Some ([], Inl (Error (''No services found with ID or name '' @ ''nonexistent'')))
   \<and> (\<not> isServiceID ''foo''
      \<and> getServices plainMatch scripted twoServices ''key'' ''foo''
          = Some ([], Inr [\<lparr>serviceId = ''srv-1'', name = ''foo-a''\<rparr>, \<lparr>serviceId = ''srv-2'', name = ''foo-b''\<rparr>])
      \<and> 1 < length [\<lparr>serviceId = ''srv-1'', name = ''foo-a''\<rparr>, \<lparr>serviceId = ''srv-2'', name = ''foo-b''\<rparr>]
      \<and> name \<lparr>serviceId = ''srv-1'', name = ''foo-a''\<rparr> \<noteq> ''foo''
      \<and> name \<lparr>serviceId = ''srv-2'', name = ''foo-b''\<rparr> \<noteq> ''foo'')
   \<and> determineService plainMatch noService scripted twoServices ''key'' ''foo''
       = Some ([], Inl (Error (''Too many services found with foo:'' @ newline @
                 ''foo-a (srv-1)  '' @ newline @ ''foo-b (srv-2)'')))
   \<and> (\<not> isServiceID ''foo-a''
      \<and> getServices plainMatch scripted twoServices ''key'' ''foo-a''
          = Some ([], Inr [\<lparr>serviceId = ''srv-1'', name = ''foo-a''\<rparr>]))
   \<and> determineService plainMatch noService scripted twoServices ''key'' ''foo-a''
       = Some ([], Inr \<lparr>serviceId = ''srv-1'', name = ''foo-a''\<rparr>)"
proof -
  let ?both = "[\<lparr>serviceId = ''srv-1'', name = ''foo-a''\<rparr>, \<lparr>serviceId = ''srv-2'', name = ''foo-b''\<rparr>]"
  have h1: "\<not> isServiceID ''nonexistent''
      \<and> getServices plainMatch scripted twoServices ''key'' ''nonexistent'' = Some ([], Inr [])"
    by (simp add: isServiceID_def startsWith_def getServices_twoServices plainMatch_def)
  have h2: "\<not> isServiceID ''foo''
      \<and> getServices plainMatch scripted twoServices ''key'' ''foo'' = Some ([], Inr ?both)
      \<and> 1 < length ?both \<and> (\<forall>sv\<in>set ?both. name sv \<noteq> ''foo'')"
    by (simp add: isServiceID_def startsWith_def getServices_twoServices plainMatch_def)
  have h3: "\<not> isServiceID ''foo-a''
      \<and> getServices plainMatch scripted twoServices ''key'' ''foo-a''
          = Some ([], Inr [\<lparr>serviceId = ''srv-1'', name = ''foo-a''\<rparr>])"
    by (simp add: isServiceID_def startsWith_def getServices_twoServices plainMatch_def)
  note t = determineService_failures[where fetchService = noService and ?fetchService2.0 = noService
      and ?fetchService3.0 = noService]
  from t[THEN conjunct1, THEN mp, OF h1]
  have A: "determineService plainMatch noService scripted twoServices ''key'' ''nonexistent''
       = Some ([], Inl (Error (''No services found with ID or name '' @ ''nonexistent'')))"
    by (rule conjunct1)
  have m: "''Too many services found with '' @ ''foo'' @ '':'' @ newline @
                   join (''  '' @ newline) (map describeService ?both)
    = ''Too many services found with foo:'' @ newline @
                 ''foo-a (srv-1)  '' @ newline @ ''foo-b (srv-2)''"
    by (simp add: describeService_def)
  from t[THEN conjunct2, THEN conjunct1, THEN mp, OF h2]
  have "determineService plainMatch noService scripted twoServices ''key'' ''foo''
       = Some ([], Inl (Error (''Too many services found with '' @ ''foo'' @ '':'' @ newline @
                   join (''  '' @ newline) (map describeService ?both))))"
    by (rule conjunct1)
  then have B: "determineService plainMatch noService scripted twoServices ''key'' ''foo''
       = Some ([], Inl (Error (''Too many services found with foo:'' @ newline @
                 ''foo-a (srv-1)  '' @ newline @ ''foo-b (srv-2)'')))"
    by (simp only: m)
  note C = t[THEN conjunct2, THEN conjunct2, THEN mp, OF h3]
  have h2': "\<not> isServiceID ''foo''
      \<and> getServices plainMatch scripted twoServices ''key'' ''foo'' = Some ([], Inr ?both)
      \<and> 1 < length ?both
      \<and> name \<lparr>serviceId = ''srv-1'', name = ''foo-a''\<rparr> \<noteq> ''foo''
      \<and> name \<lparr>serviceId = ''srv-2'', name = ''foo-b''\<rparr> \<noteq> ''foo''"
    using h2 by simp
  from h1 A h2' B h3 C show ?thesis by blast
qed


end
